theory Spec2Isabelle
  imports Complex_Main "HOL-Library.Word" "HOL-Library.AList" "HOL-Library.Multiset"
    "HOL-Library.Signed_Division"
begin

section \<open>Numbers\<close>

text \<open>
  The exporter reads integer fields of the decoded statistics documents and hands each to
  the metrics library as \<open>float64(field)\<close>. A field is a Go \<open>int64\<close>; the value a
  series holds is the real number the resulting float64 denotes.
\<close>

type_synonym int64 = "64 word"

text \<open>Go's \<open>/\<close> on \<open>int64\<close>: the quotient truncated towards zero, wrapped to 64 bits.\<close>

definition int64_quot :: "int64 \<Rightarrow> int64 \<Rightarrow> int64" where
  "int64_quot x y = word_of_int (sint x sdiv sint y)"

fun bits :: "nat \<Rightarrow> nat" where
  "bits n = (if n = 0 then 0 else Suc (bits (n div 2)))"

declare bits.simps [simp del]

text \<open>
  The conversion \<open>float64(x)\<close> of an \<open>int64\<close>: exact while the magnitude fits the 53-bit
  significand, otherwise rounded to the nearest representable value, ties to even. The
  exponent range of float64 is never reached from 64 bits.
\<close>

definition round_to_float64 :: "int \<Rightarrow> int" where
  "round_to_float64 i =
     (let a = \<bar>i\<bar> in
      if a < 2 ^ 53 then i
      else
        let e = bits (nat a) - 53;
            q = a div 2 ^ e;
            r = a mod 2 ^ e;
            q' = (if 2 * r > 2 ^ e \<or> (2 * r = 2 ^ e \<and> odd q) then q + 1 else q)
        in sgn i * (q' * 2 ^ e))"

definition float64 :: "int64 \<Rightarrow> real" where
  "float64 x = real_of_int (round_to_float64 (sint x))"

section \<open>The decoded documents\<close>

text \<open>
  Modelled from the spec: the struct declarations behind \<open>NodeStatsResponse\<close> and
  \<open>ClusterHealthResponse\<close> are not part of the source file. The records below hold the
  fields that \<open>Collect\<close> reads, nested along the selector paths it uses
  (\<open>stats.JVM.GC.Collectors\<close>, \<open>stats.Indices.QueryCache.MemorySize\<close>, ...), together
  with the request-cache statistics, the remaining thread-pool statistics and the
  maximum of file descriptors that the spec's data model lists. Every numeric field is
  an \<open>int64\<close>, as the conversions \<open>float64(...)\<close> around each read and the untyped
  constant in \<open>CollectionTime / 1000\<close> require of an integer field. A Go map with
  string keys is a map \<open>string \<rightharpoonup> 'v\<close>.
\<close>

record GCCollectorStats =
  CollectionCount :: int64
  CollectionTime :: int64

record GCStats =
  Collectors :: "string \<rightharpoonup> GCCollectorStats"

record MemStats =
  HeapCommitted :: int64
  HeapUsed :: int64
  HeapMax :: int64
  NonHeapCommitted :: int64
  NonHeapUsed :: int64

record JVMStats =
  GC :: GCStats
  Mem :: MemStats

record BreakerStats =
  EstimatedSize :: int64
  LimitSize :: int64

record ThreadPoolStats =
  Threads :: int64
  Queue :: int64
  Active :: int64
  Rejected :: int64
  Largest :: int64
  Completed :: int64

record CacheStats =
  MemorySize :: int64
  Evictions :: int64

record DocsStats =
  Count :: int64
  Deleted :: int64

record SegmentsStats =
  Count :: int64
  Memory :: int64

record StoreStats =
  Size :: int64
  ThrottleTime :: int64

record FlushStats =
  Total :: int64
  Time :: int64

record IndexingStats =
  IndexTotal :: int64
  IndexTime :: int64

record MergesStats =
  Total :: int64
  TotalSize :: int64
  TotalTime :: int64

record RefreshStats =
  Total :: int64
  TotalTime :: int64

record IndicesStats =
  Docs :: DocsStats
  Store :: StoreStats
  Indexing :: IndexingStats
  Merges :: MergesStats
  Refresh :: RefreshStats
  Flush :: FlushStats
  Segments :: SegmentsStats
  FieldData :: CacheStats
  FilterCache :: CacheStats
  QueryCache :: CacheStats
  RequestCache :: CacheStats

record TransportStats =
  RxCount :: int64
  RxSize :: int64
  TxCount :: int64
  TxSize :: int64

record ProcessCPUStats =
  Percent :: int64
  Sys :: int64
  User :: int64
  Total :: int64

record ProcessMemStats =
  Resident :: int64
  Share :: int64
  TotalVirtual :: int64

record ProcessStats =
  CPU :: ProcessCPUStats
  Memory :: ProcessMemStats
  OpenFD :: int64
  MaxFD :: int64

record NodeStatsNodeResponse =
  Host :: string
  JVM :: JVMStats
  Breakers :: "string \<rightharpoonup> BreakerStats"
  ThreadPool :: "string \<rightharpoonup> ThreadPoolStats"
  Indices :: IndicesStats
  Transport :: TransportStats
  Process :: ProcessStats

record NodeStatsResponse =
  ClusterName :: string
  Nodes :: "string \<rightharpoonup> NodeStatsNodeResponse"

record ClusterHealthResponse =
  ClusterName :: string
  Status :: string
  TimedOut :: bool
  NumberOfNodes :: int64
  NumberOfDataNodes :: int64

text \<open>
  What one of the two upstream requests of a cycle comes to: \<open>client.Get\<close> fails,
  \<open>ioutil.ReadAll\<close> fails, \<open>json.Unmarshal\<close> fails, or the body decodes.
\<close>

datatype 'a fetched = GetFailed | ReadFailed | UnmarshalFailed | Unmarshalled 'a

record upstream =
  nodeStats :: "NodeStatsResponse fetched"
  clusterHealth :: "ClusterHealthResponse fetched"

text \<open>
  A \<open>range\<close> loop over a Go map visits every key once, in an order the runtime picks
  anew for each loop. The order a cycle's loops take is a parameter of the cycle: the
  node ids in the order of the loop over \<open>allStats.Nodes\<close>, and for each node id the keys
  of its collectors, breakers and thread pools in the order of the inner loops.
\<close>

record range_order =
  nodeOrder :: "string list"
  collectorOrder :: "string \<Rightarrow> string list"
  breakerOrder :: "string \<Rightarrow> string list"
  poolOrder :: "string \<Rightarrow> string list"

definition range_map :: "('k \<rightharpoonup> 'v) \<Rightarrow> 'k list \<Rightarrow> ('k \<times> 'v) list" where
  "range_map m ks = List.map_filter (\<lambda>k. map_option (Pair k) (m k)) ks"

definition visits :: "('k \<rightharpoonup> 'v) \<Rightarrow> 'k list \<Rightarrow> bool" where
  "visits m ks \<longleftrightarrow> distinct ks \<and> set ks = dom m"

definition order_ok :: "NodeStatsResponse \<Rightarrow> range_order \<Rightarrow> bool" where
  "order_ok allStats ord \<longleftrightarrow>
     visits (Nodes allStats) (nodeOrder ord) \<and>
     list_all (\<lambda>(n, stats).
         visits (Collectors (GC (JVM stats))) (collectorOrder ord n) \<and>
         visits (Breakers stats) (breakerOrder ord n) \<and>
         visits (ThreadPool stats) (poolOrder ord n))
       (range_map (Nodes allStats) (nodeOrder ord))"

section \<open>The metric catalog\<close>

definition namespace :: string where
  "namespace = ''elasticsearch''"

record VecInfo =
  help' :: string
  labels :: "string list"

definition gaugeMetrics :: "(string \<times> string) list" where
  "gaugeMetrics =
    [(''cluster_health_status'', ''Current cluster health status''),
     (''cluster_health_timed_out'', ''Current cluster health timed out''),
     (''cluster_number_of_nodes_total'', ''Current cluster total node size''),
     (''cluster_number_of_data_nodes_total'', ''Current cluster total data node size''),
     (''indices_fielddata_memory_size_bytes'', ''Field data cache memory usage in bytes''),
     (''indices_filter_cache_memory_size_bytes'', ''Filter cache memory usage in bytes''),
     (''indices_query_cache_memory_size_bytes'', ''Query cache memory usage in bytes''),
     (''indices_request_cache_memory_size_bytes'', ''Request cache memory usage in bytes''),
     (''indices_docs'', ''Count of documents on this node''),
     (''indices_docs_deleted'', ''Count of deleted documents on this node''),
     (''indices_store_size_bytes'', ''Current size of stored index data in bytes''),
     (''indices_segments_memory_bytes'', ''Current memory size of segments in bytes''),
     (''indices_segments_count'', ''Count of index segments on this node''),
     (''process_cpu_percent'', ''Percent CPU used by process''),
     (''process_mem_resident_size_bytes'', ''Resident memory in use by process in bytes''),
     (''process_mem_share_size_bytes'', ''Shared memory in use by process in bytes''),
     (''process_mem_virtual_size_bytes'', ''Total virtual memory used in bytes''),
     (''process_open_files_count'', ''Open file descriptors''),
     (''process_max_files_count'', ''Max file descriptors for process'')]"

definition counterMetrics :: "(string \<times> string) list" where
  "counterMetrics =
    [(''indices_fielddata_evictions'', ''Evictions from field data''),
     (''indices_filter_cache_evictions'', ''Evictions from filter cache''),
     (''indices_query_cache_evictions'', ''Evictions from query cache''),
     (''indices_request_cache_evictions'', ''Evictions from request cache''),
     (''indices_flush_total'', ''Total flushes''),
     (''indices_flush_time_ms_total'', ''Cumulative flush time in milliseconds''),
     (''transport_rx_packets_total'', ''Count of packets received''),
     (''transport_rx_size_bytes_total'', ''Total number of bytes received''),
     (''transport_tx_packets_total'', ''Count of packets sent''),
     (''transport_tx_size_bytes_total'', ''Total number of bytes sent''),
     (''indices_store_throttle_time_ms_total'', ''Throttle time for index store in milliseconds''),
     (''indices_indexing_index_total'', ''Total index calls''),
     (''indices_indexing_index_time_ms_total'', ''Cumulative index time in milliseconds''),
     (''indices_merges_total'', ''Total merges''),
     (''indices_merges_total_docs_total'', ''Cumulative docs merged''),
     (''indices_merges_total_size_bytes_total'', ''Total merge size in bytes''),
     (''indices_merges_total_time_ms_total'', ''Total time spent merging in milliseconds''),
     (''indices_refresh_total'', ''Total refreshes''),
     (''indices_refresh_total_time_ms_total'', ''Total time spent refreshing'')]"

definition counterVecMetrics :: "(string \<times> VecInfo) list" where
  "counterVecMetrics =
    [(''jvm_gc_collection_seconds_count'',
        \<lparr>help' = ''Count of JVM GC runs'', labels = [''gc'']\<rparr>),
     (''jvm_gc_collection_seconds_sum'',
        \<lparr>help' = ''GC run time in seconds'', labels = [''gc'']\<rparr>),
     (''process_cpu_time_seconds_sum'',
        \<lparr>help' = ''Process CPU time in seconds'', labels = [''type'']\<rparr>),
     (''thread_pool_completed_count'',
        \<lparr>help' = ''Thread Pool operations completed'', labels = [''type'']\<rparr>),
     (''thread_pool_rejected_count'',
        \<lparr>help' = ''Thread Pool operations rejected'', labels = [''type'']\<rparr>)]"

definition gaugeVecMetrics :: "(string \<times> VecInfo) list" where
  "gaugeVecMetrics =
    [(''breakers_estimated_size_bytes'',
        \<lparr>help' = ''Estimated size in bytes of breaker'', labels = [''breaker'']\<rparr>),
     (''breakers_limit_size_bytes'',
        \<lparr>help' = ''Limit size in bytes for breaker'', labels = [''breaker'']\<rparr>),
     (''jvm_memory_committed_bytes'',
        \<lparr>help' = ''JVM memory currently committed by area'', labels = [''area'']\<rparr>),
     (''jvm_memory_used_bytes'',
        \<lparr>help' = ''JVM memory currently used by area'', labels = [''area'']\<rparr>),
     (''jvm_memory_max_bytes'',
        \<lparr>help' = ''JVM memory max'', labels = [''area'']\<rparr>),
     (''thread_pool_active_count'',
        \<lparr>help' = ''Thread Pool threads active'', labels = [''type'']\<rparr>),
     (''thread_pool_largest_count'',
        \<lparr>help' = ''Thread Pool largest threads count'', labels = [''type'']\<rparr>),
     (''thread_pool_queue_count'',
        \<lparr>help' = ''Thread Pool operations queued'', labels = [''type'']\<rparr>),
     (''thread_pool_threads_count'',
        \<lparr>help' = ''Thread Pool current threads count'', labels = [''type'']\<rparr>)]"

section \<open>The metrics library\<close>

text \<open>
  A \<open>GaugeVec\<close> or \<open>CounterVec\<close> of the metrics library: its descriptor (the fully
  qualified name, the help text and the label names) and its children, one value for
  each tuple of label values that has been set since the last \<open>Reset\<close>. The children
  are kept in the order of their creation.
\<close>

record MetricVec =
  fqName :: string
  helpText :: string
  labelNames :: "string list"
  children :: "(string list \<times> real) list"

definition BuildFQName :: "string \<Rightarrow> string \<Rightarrow> string" where
  "BuildFQName ns name = ns @ ''_'' @ name"

definition NewVec :: "string \<Rightarrow> string \<Rightarrow> string list \<Rightarrow> MetricVec" where
  "NewVec name hlp lbls =
     \<lparr>fqName = BuildFQName namespace name, helpText = hlp, labelNames = lbls, children = []\<rparr>"

definition Reset :: "MetricVec \<Rightarrow> MetricVec" where
  "Reset vec = vec\<lparr>children := []\<rparr>"

text \<open>
  The two ways a statement \<open>e.gauges[name].WithLabelValues(...).Set(v)\<close> panics: the map
  has no vector under \<open>name\<close> (a nil pointer), or the number of label values is not the
  number of label names of the vector.
\<close>

datatype panic = NilVec string | InconsistentCardinality string

definition WithLabelValues_Set :: "MetricVec \<Rightarrow> string list \<Rightarrow> real \<Rightarrow> panic + MetricVec" where
  "WithLabelValues_Set vec lvs v =
     (if length lvs \<noteq> length (labelNames vec) then Inl (InconsistentCardinality (fqName vec))
      else Inr (vec\<lparr>children := AList.update lvs v (children vec)\<rparr>))"

text \<open>One sample sent to the channel of \<open>Collect\<close>: name, label values, value.\<close>

datatype Metric = Metric (mName: string) (mLabels: "string list") (mValue: real)

definition Collect_vec :: "MetricVec \<Rightarrow> Metric list" where
  "Collect_vec vec = map (\<lambda>(lvs, v). Metric (fqName vec) lvs v) (children vec)"

section \<open>The exporter\<close>

record Exporter =
  URI :: string
  ClusterURI :: string
  up :: real
  gauges :: "(string \<times> MetricVec) list"
  gaugeVecs :: "(string \<times> MetricVec) list"
  counters :: "(string \<times> MetricVec) list"
  counterVecs :: "(string \<times> MetricVec) list"
  allNodes :: bool
  clientTimeout :: int64
  clientInsecure :: bool

definition NewExporter :: "string \<Rightarrow> int64 \<Rightarrow> bool \<Rightarrow> bool \<Rightarrow> Exporter" where
  "NewExporter uri timeout allNodes' unsecure =
     \<lparr>URI = (if allNodes' then uri @ ''/_nodes/stats'' else uri @ ''/_nodes/_local/stats''),
      ClusterURI = uri @ ''/_cluster/health'',
      up = 0,
      gauges = map (\<lambda>(name, hlp). (name, NewVec name hlp [''cluster'', ''node''])) gaugeMetrics,
      gaugeVecs =
        map (\<lambda>(name, info). (name, NewVec name (help' info) ([''cluster'', ''node''] @ labels info)))
          gaugeVecMetrics,
      counters = map (\<lambda>(name, hlp). (name, NewVec name hlp [''cluster'', ''node''])) counterMetrics,
      counterVecs =
        map (\<lambda>(name, info). (name, NewVec name (help' info) ([''cluster'', ''node''] @ labels info)))
          counterVecMetrics,
      allNodes = allNodes',
      clientTimeout = timeout,
      clientInsecure = unsecure\<rparr>"

text \<open>The four maps of vectors an exporter holds.\<close>

datatype family = Gauges | GaugeVecs | Counters | CounterVecs

fun family_of :: "family \<Rightarrow> Exporter \<Rightarrow> (string \<times> MetricVec) list" where
  "family_of Gauges e = gauges e"
| "family_of GaugeVecs e = gaugeVecs e"
| "family_of Counters e = counters e"
| "family_of CounterVecs e = counterVecs e"

fun family_put :: "family \<Rightarrow> (string \<times> MetricVec) list \<Rightarrow> Exporter \<Rightarrow> Exporter" where
  "family_put Gauges m e = e\<lparr>gauges := m\<rparr>"
| "family_put GaugeVecs m e = e\<lparr>gaugeVecs := m\<rparr>"
| "family_put Counters m e = e\<lparr>counters := m\<rparr>"
| "family_put CounterVecs m e = e\<lparr>counterVecs := m\<rparr>"

text \<open>
  A statement \<open>e.<family>[name].WithLabelValues(lvs...).Set(v)\<close> of \<open>Collect\<close>, as the
  tuple \<open>(family, name, lvs, v)\<close>, and its effect on the exporter.
\<close>

type_synonym set_stmt = "family \<times> string \<times> string list \<times> real"

fun set_series :: "Exporter \<Rightarrow> set_stmt \<Rightarrow> panic + Exporter" where
  "set_series e (fam, name, lvs, v) =
     (case map_of (family_of fam e) name of
        None \<Rightarrow> Inl (NilVec name)
      | Some vec \<Rightarrow>
          (case WithLabelValues_Set vec lvs v of
             Inl p \<Rightarrow> Inl p
           | Inr vec' \<Rightarrow> Inr (family_put fam (AList.update name vec' (family_of fam e)) e)))"

declare set_series.simps [simp del]

fun run_sets :: "Exporter \<Rightarrow> set_stmt list \<Rightarrow> panic + Exporter" where
  "run_sets e [] = Inr e"
| "run_sets e (s # ss) =
     (case set_series e s of Inl p \<Rightarrow> Inl p | Inr e' \<Rightarrow> run_sets e' ss)"

definition reset_all :: "Exporter \<Rightarrow> Exporter" where
  "reset_all e =
     e\<lparr>gaugeVecs := map (\<lambda>(name, vec). (name, Reset vec)) (gaugeVecs e),
       counterVecs := map (\<lambda>(name, vec). (name, Reset vec)) (counterVecs e),
       gauges := map (\<lambda>(name, vec). (name, Reset vec)) (gauges e),
       counters := map (\<lambda>(name, vec). (name, Reset vec)) (counters e)\<rparr>"

text \<open>
  The report ranges over the four maps of the exporter, and each vector over its
  children: Go maps, so the order in which the samples reach the channel is not
  determined. The list below is one such order (the vectors in the order of the catalog,
  the children in the order of their creation); what is said of the samples sent is said
  of their membership or their multiset, never of their order.
\<close>

definition report :: "Exporter \<Rightarrow> Metric list" where
  "report e =
     concat (map (\<lambda>(name, vec). Collect_vec vec) (counterVecs e)) @
     concat (map (\<lambda>(name, vec). Collect_vec vec) (gaugeVecs e)) @
     concat (map (\<lambda>(name, vec). Collect_vec vec) (counters e)) @
     concat (map (\<lambda>(name, vec). Collect_vec vec) (gauges e))"

definition up_metric :: "Exporter \<Rightarrow> Metric" where
  "up_metric e = Metric (BuildFQName namespace ''up'') [] (up e)"

section \<open>The statements of a collection cycle\<close>

definition gc_sets :: "string \<Rightarrow> string \<Rightarrow> (string \<times> GCCollectorStats) list \<Rightarrow> set_stmt list" where
  "gc_sets cluster host collectors =
     concat (map (\<lambda>(collector, gcstats).
       [(CounterVecs, ''jvm_gc_collection_seconds_count'', [cluster, host, collector],
           float64 (CollectionCount gcstats)),
        (CounterVecs, ''jvm_gc_collection_seconds_sum'', [cluster, host, collector],
           float64 (int64_quot (CollectionTime gcstats) 1000))]) collectors)"

definition breaker_sets :: "string \<Rightarrow> string \<Rightarrow> (string \<times> BreakerStats) list \<Rightarrow> set_stmt list" where
  "breaker_sets cluster host breakers =
     concat (map (\<lambda>(breaker, bstats).
       [(GaugeVecs, ''breakers_estimated_size_bytes'', [cluster, host, breaker],
           float64 (EstimatedSize bstats)),
        (GaugeVecs, ''breakers_limit_size_bytes'', [cluster, host, breaker],
           float64 (LimitSize bstats))]) breakers)"

definition pool_sets :: "string \<Rightarrow> string \<Rightarrow> (string \<times> ThreadPoolStats) list \<Rightarrow> set_stmt list" where
  "pool_sets cluster host pools =
     concat (map (\<lambda>(pool, pstats).
       [(CounterVecs, ''thread_pool_completed_count'', [cluster, host, pool],
           float64 (Completed pstats)),
        (CounterVecs, ''thread_pool_rejected_count'', [cluster, host, pool],
           float64 (Rejected pstats)),
        (GaugeVecs, ''thread_pool_active_count'', [cluster, host, pool], float64 (Active pstats)),
        (GaugeVecs, ''thread_pool_threads_count'', [cluster, host, pool], float64 (Active pstats)),
        (GaugeVecs, ''thread_pool_largest_count'', [cluster, host, pool], float64 (Active pstats)),
        (GaugeVecs, ''thread_pool_queue_count'', [cluster, host, pool], float64 (Active pstats))])
       pools)"

definition jvm_mem_sets :: "string \<Rightarrow> string \<Rightarrow> MemStats \<Rightarrow> set_stmt list" where
  "jvm_mem_sets cluster host mem =
     [(GaugeVecs, ''jvm_memory_committed_bytes'', [cluster, host, ''heap''],
         float64 (HeapCommitted mem)),
      (GaugeVecs, ''jvm_memory_used_bytes'', [cluster, host, ''heap''], float64 (HeapUsed mem)),
      (GaugeVecs, ''jvm_memory_max_bytes'', [cluster, host, ''heap''], float64 (HeapMax mem)),
      (GaugeVecs, ''jvm_memory_committed_bytes'', [cluster, host, ''non-heap''],
         float64 (NonHeapCommitted mem)),
      (GaugeVecs, ''jvm_memory_used_bytes'', [cluster, host, ''non-heap''],
         float64 (NonHeapUsed mem))]"

definition indices_sets :: "string \<Rightarrow> string \<Rightarrow> IndicesStats \<Rightarrow> set_stmt list" where
  "indices_sets cluster host ind =
     [(Gauges, ''indices_fielddata_memory_size_bytes'', [cluster, host],
         float64 (MemorySize (FieldData ind))),
      (Counters, ''indices_fielddata_evictions'', [cluster, host],
         float64 (Evictions (FieldData ind))),
      (Gauges, ''indices_filter_cache_memory_size_bytes'', [cluster, host],
         float64 (MemorySize (FilterCache ind))),
      (Counters, ''indices_filter_cache_evictions'', [cluster, host],
         float64 (Evictions (FilterCache ind))),
      (Gauges, ''indices_query_cache_memory_size_bytes'', [cluster, host],
         float64 (MemorySize (QueryCache ind))),
      (Counters, ''indices_query_cache_evictions'', [cluster, host],
         float64 (Evictions (QueryCache ind))),
      (Gauges, ''indices_request_cache_memory_size_bytes'', [cluster, host],
         float64 (MemorySize (QueryCache ind))),
      (Counters, ''indices_request_cache_evictions'', [cluster, host],
         float64 (Evictions (QueryCache ind))),
      (Gauges, ''indices_docs'', [cluster, host], float64 (DocsStats.Count (Docs ind))),
      (Gauges, ''indices_docs_deleted'', [cluster, host], float64 (Deleted (Docs ind))),
      (Gauges, ''indices_segments_memory_bytes'', [cluster, host],
         float64 (SegmentsStats.Memory (Segments ind))),
      (Gauges, ''indices_segments_count'', [cluster, host],
         float64 (SegmentsStats.Count (Segments ind))),
      (Gauges, ''indices_store_size_bytes'', [cluster, host], float64 (Size (Store ind))),
      (Counters, ''indices_store_throttle_time_ms_total'', [cluster, host],
         float64 (ThrottleTime (Store ind))),
      (Counters, ''indices_flush_total'', [cluster, host], float64 (FlushStats.Total (Flush ind))),
      (Counters, ''indices_flush_time_ms_total'', [cluster, host], float64 (Time (Flush ind))),
      (Counters, ''indices_indexing_index_time_ms_total'', [cluster, host],
         float64 (IndexTime (Indexing ind))),
      (Counters, ''indices_indexing_index_total'', [cluster, host],
         float64 (IndexTotal (Indexing ind))),
      (Counters, ''indices_merges_total_time_ms_total'', [cluster, host],
         float64 (MergesStats.TotalTime (Merges ind))),
      (Counters, ''indices_merges_total_size_bytes_total'', [cluster, host],
         float64 (TotalSize (Merges ind))),
      (Counters, ''indices_merges_total'', [cluster, host],
         float64 (MergesStats.Total (Merges ind))),
      (Counters, ''indices_refresh_total_time_ms_total'', [cluster, host],
         float64 (RefreshStats.TotalTime (Refresh ind))),
      (Counters, ''indices_refresh_total'', [cluster, host],
         float64 (RefreshStats.Total (Refresh ind)))]"

definition transport_sets :: "string \<Rightarrow> string \<Rightarrow> TransportStats \<Rightarrow> set_stmt list" where
  "transport_sets cluster host tr =
     [(Counters, ''transport_rx_packets_total'', [cluster, host], float64 (RxCount tr)),
      (Counters, ''transport_rx_size_bytes_total'', [cluster, host], float64 (RxSize tr)),
      (Counters, ''transport_tx_packets_total'', [cluster, host], float64 (TxCount tr)),
      (Counters, ''transport_tx_size_bytes_total'', [cluster, host], float64 (TxSize tr))]"

definition process_sets :: "string \<Rightarrow> string \<Rightarrow> ProcessStats \<Rightarrow> set_stmt list" where
  "process_sets cluster host pr =
     [(Gauges, ''process_cpu_percent'', [cluster, host], float64 (Percent (CPU pr))),
      (Gauges, ''process_mem_resident_size_bytes'', [cluster, host],
         float64 (Resident (ProcessStats.Memory pr))),
      (Gauges, ''process_mem_share_size_bytes'', [cluster, host],
         float64 (Share (ProcessStats.Memory pr))),
      (Gauges, ''process_mem_virtual_size_bytes'', [cluster, host],
         float64 (TotalVirtual (ProcessStats.Memory pr))),
      (Gauges, ''process_open_files_count'', [cluster, host], float64 (OpenFD pr)),
      (CounterVecs, ''process_cpu_time_seconds_sum'', [cluster, host, ''total''],
         float64 (int64_quot (ProcessCPUStats.Total (CPU pr)) 1000)),
      (CounterVecs, ''process_cpu_time_seconds_sum'', [cluster, host, ''sys''],
         float64 (int64_quot (Sys (CPU pr)) 1000)),
      (CounterVecs, ''process_cpu_time_seconds_sum'', [cluster, host, ''user''],
         float64 (int64_quot (User (CPU pr)) 1000))]"

text \<open>The body of the loop over \<open>allStats.Nodes\<close>, for the node under the key \<open>n\<close>.\<close>

definition node_sets :: "range_order \<Rightarrow> string \<Rightarrow> string \<times> NodeStatsNodeResponse \<Rightarrow> set_stmt list" where
  "node_sets ord cluster = (\<lambda>(n, stats).
     gc_sets cluster (Host stats)
       (range_map (Collectors (GC (JVM stats))) (collectorOrder ord n)) @
     breaker_sets cluster (Host stats) (range_map (Breakers stats) (breakerOrder ord n)) @
     pool_sets cluster (Host stats) (range_map (ThreadPool stats) (poolOrder ord n)) @
     jvm_mem_sets cluster (Host stats) (Mem (JVM stats)) @
     indices_sets cluster (Host stats) (Indices stats) @
     transport_sets cluster (Host stats) (Transport stats) @
     process_sets cluster (Host stats) (Process stats))"

definition populate_sets :: "range_order \<Rightarrow> NodeStatsResponse \<Rightarrow> set_stmt list" where
  "populate_sets ord allStats =
     concat (map (node_sets ord (NodeStatsResponse.ClusterName allStats))
       (range_map (Nodes allStats) (nodeOrder ord)))"

definition health_status_value :: "string \<Rightarrow> real" where
  "health_status_value status =
     (if status = ''green'' then 0
      else if status = ''yellow'' then 1
      else if status = ''red'' then 2
      else 0)"

definition health_sets :: "ClusterHealthResponse \<Rightarrow> set_stmt list" where
  "health_sets clusterStat =
     [(Gauges, ''cluster_health_status'', [ClusterName clusterStat, ''unknown''],
         health_status_value (Status clusterStat)),
      (Gauges, ''cluster_health_timed_out'', [ClusterName clusterStat, ''unknown''],
         (if TimedOut clusterStat then 1 else 0)),
      (Gauges, ''cluster_number_of_nodes_total'', [ClusterName clusterStat, ''unknown''],
         float64 (NumberOfNodes clusterStat)),
      (Gauges, ''cluster_number_of_data_nodes_total'', [ClusterName clusterStat, ''unknown''],
         float64 (NumberOfDataNodes clusterStat))]"

section \<open>The collection cycle\<close>

text \<open>
  What a call of \<open>Collect\<close> leaves behind: the exporter as mutated, the samples sent to
  the channel in the order of sending, and the lines logged.
\<close>

record outcome =
  exporter :: Exporter
  sent :: "Metric list"
  logged :: "string list"

text \<open>
  Every return of \<open>Collect\<close> runs the deferred \<open>ch <- e.up\<close>: the availability gauge is
  the last sample sent.
\<close>

definition returned :: "Exporter \<Rightarrow> Metric list \<Rightarrow> string list \<Rightarrow> panic + outcome" where
  "returned e ms logs = Inr \<lparr>exporter = e, sent = ms @ [up_metric e], logged = logs\<rparr>"

definition Collect :: "Exporter \<Rightarrow> range_order \<Rightarrow> upstream \<Rightarrow> panic + outcome" where
  "Collect e0 ord env =
     (let e = reset_all e0 in
      case nodeStats env of
        GetFailed \<Rightarrow> returned (e\<lparr>up := 0\<rparr>) [] [''Error while querying Elasticsearch:'']
      | ReadFailed \<Rightarrow> returned (e\<lparr>up := 0\<rparr>) [] [''Failed to read ES response body:'']
      | UnmarshalFailed \<Rightarrow>
          returned (e\<lparr>up := 1\<rparr>) [] [''Failed to unmarshal JSON into struct:'']
      | Unmarshalled allStats \<Rightarrow>
          (let logs = (if \<not> allNodes e \<and> card (dom (Nodes allStats)) \<noteq> 1
                       then [''Unexpected number of nodes returned.''] else [])
           in case run_sets (e\<lparr>up := 1\<rparr>) (populate_sets ord allStats) of
                Inl p \<Rightarrow> Inl p
              | Inr e1 \<Rightarrow>
                  (case clusterHealth env of
                     GetFailed \<Rightarrow>
                       returned e1 [] (logs @ [''Error while query elasticsearch cluster status''])
                   | ReadFailed \<Rightarrow>
                       returned e1 [] (logs @ [''Failed to read ES cluster response body:''])
                   | UnmarshalFailed \<Rightarrow>
                       returned e1 [] (logs @ [''Failed to unmarshal JSON into struct:''])
                   | Unmarshalled clusterStat \<Rightarrow>
                       (case run_sets e1 (health_sets clusterStat) of
                          Inl p \<Rightarrow> Inl p
                        | Inr e2 \<Rightarrow> returned e2 (report e2) logs))))"

section \<open>Reading the registry\<close>

text \<open>
  The children of the vector \<open>e.<family>[name]\<close>, and the value it holds for a tuple of
  label values.
\<close>

definition series :: "Exporter \<Rightarrow> family \<Rightarrow> string \<Rightarrow> (string list \<times> real) list option" where
  "series e fam name = map_option children (map_of (family_of fam e) name)"

definition series_value :: "Exporter \<Rightarrow> family \<Rightarrow> string \<Rightarrow> string list \<Rightarrow> real option" where
  "series_value e fam name lvs = (case series e fam name of None \<Rightarrow> None | Some cs \<Rightarrow> map_of cs lvs)"

text \<open>
  An exporter is one that \<open>NewExporter\<close> made, whatever cycles it has gone through since:
  its four maps hold the vectors of the catalog, under their names and with their label
  names. Only the children of a vector ever change.
\<close>

definition vec_shape :: "(string \<times> MetricVec) list \<Rightarrow> (string \<times> string \<times> nat) list" where
  "vec_shape m = map (\<lambda>(name, vec). (name, fqName vec, length (labelNames vec))) m"

definition catalog_shape :: "family \<Rightarrow> (string \<times> string \<times> nat) list" where
  "catalog_shape fam =
     (case fam of
        Gauges \<Rightarrow> map (\<lambda>(name, hlp). (name, BuildFQName namespace name, 2)) gaugeMetrics
      | Counters \<Rightarrow> map (\<lambda>(name, hlp). (name, BuildFQName namespace name, 2)) counterMetrics
      | GaugeVecs \<Rightarrow>
          map (\<lambda>(name, info). (name, BuildFQName namespace name, 2 + length (labels info)))
            gaugeVecMetrics
      | CounterVecs \<Rightarrow>
          map (\<lambda>(name, info). (name, BuildFQName namespace name, 2 + length (labels info)))
            counterVecMetrics)"

definition exporter_ok :: "Exporter \<Rightarrow> bool" where
  "exporter_ok e \<longleftrightarrow>
     vec_shape (gauges e) = catalog_shape Gauges \<and>
     vec_shape (gaugeVecs e) = catalog_shape GaugeVecs \<and>
     vec_shape (counters e) = catalog_shape Counters \<and>
     vec_shape (counterVecs e) = catalog_shape CounterVecs"

text \<open>
  The statements of a list that address one vector, as the pairs they upsert, and the
  children that result from upserting a list of pairs in order.
\<close>

definition proj :: "family \<Rightarrow> string \<Rightarrow> set_stmt list \<Rightarrow> (string list \<times> real) list" where
  "proj fam name ss = map (\<lambda>(f, n, lvs, v). (lvs, v)) (filter (\<lambda>(f, n, lvs, v). f = fam \<and> n = name) ss)"

definition upsert_all :: "(string list \<times> real) list \<Rightarrow> (string list \<times> real) list \<Rightarrow> (string list \<times> real) list" where
  "upsert_all kvs cs = fold (\<lambda>(lvs, v). AList.update lvs v) kvs cs"

text \<open>A statement addresses a vector of the catalog with the right number of label values.\<close>

definition stmt_ok :: "set_stmt \<Rightarrow> bool" where
  "stmt_ok = (\<lambda>(fam, name, lvs, v). map_of (catalog_shape fam) name = Some (BuildFQName namespace name, length lvs))"

text \<open>A sample of the series \<open>name\<close> of the catalog is among those sent.\<close>

definition exposed :: "outcome \<Rightarrow> string \<Rightarrow> string list \<Rightarrow> real \<Rightarrow> bool" where
  "exposed out name lvs v \<longleftrightarrow> Metric (BuildFQName namespace name) lvs v \<in> set (sent out)"

text \<open>The hosts of the nodes a cycle visits are pairwise distinct.\<close>

definition hosts_distinct :: "NodeStatsResponse \<Rightarrow> range_order \<Rightarrow> bool" where
  "hosts_distinct allStats ord \<longleftrightarrow>
     distinct (map (\<lambda>(n, stats). Host stats) (range_map (Nodes allStats) (nodeOrder ord)))"

text \<open>The registry after a list of statements has run on a registry just reset.\<close>

definition registry_after :: "set_stmt list \<Rightarrow> family \<Rightarrow> string \<Rightarrow> (string list \<times> real) list option" where
  "registry_after ss fam name =
     (if name \<in> fst ` set (catalog_shape fam) then Some (upsert_all (proj fam name ss) []) else None)"

text \<open>The statements a cycle executes, and whether it reaches the report.\<close>

definition cycle_sets :: "range_order \<Rightarrow> upstream \<Rightarrow> set_stmt list" where
  "cycle_sets ord env =
     (case nodeStats env of
        Unmarshalled allStats \<Rightarrow>
          populate_sets ord allStats @
          (case clusterHealth env of Unmarshalled clusterStat \<Rightarrow> health_sets clusterStat | _ \<Rightarrow> [])
      | _ \<Rightarrow> [])"

definition reports :: "upstream \<Rightarrow> bool" where
  "reports env \<longleftrightarrow>
     (case nodeStats env of
        Unmarshalled allStats \<Rightarrow> (case clusterHealth env of Unmarshalled clusterStat \<Rightarrow> True | _ \<Rightarrow> False)
      | _ \<Rightarrow> False)"

definition up_after :: "upstream \<Rightarrow> real" where
  "up_after env = (case nodeStats env of GetFailed \<Rightarrow> 0 | ReadFailed \<Rightarrow> 0 | _ \<Rightarrow> 1)"

text \<open>
  Example inputs. A node whose document is empty decodes to the zero value; the example
  node has one collector, one thread pool, and a query cache and a request cache of
  different sizes.
\<close>

definition zero_node :: NodeStatsNodeResponse where
  "zero_node =
     \<lparr>Host = [],
      JVM = \<lparr>GC = \<lparr>Collectors = Map.empty\<rparr>,
             Mem = \<lparr>HeapCommitted = 0, HeapUsed = 0, HeapMax = 0, NonHeapCommitted = 0,
                    NonHeapUsed = 0\<rparr>\<rparr>,
      Breakers = Map.empty,
      ThreadPool = Map.empty,
      Indices =
        \<lparr>Docs = \<lparr>DocsStats.Count = 0, Deleted = 0\<rparr>,
         Store = \<lparr>Size = 0, ThrottleTime = 0\<rparr>,
         Indexing = \<lparr>IndexTotal = 0, IndexTime = 0\<rparr>,
         Merges = \<lparr>MergesStats.Total = 0, TotalSize = 0, MergesStats.TotalTime = 0\<rparr>,
         Refresh = \<lparr>RefreshStats.Total = 0, RefreshStats.TotalTime = 0\<rparr>,
         Flush = \<lparr>FlushStats.Total = 0, Time = 0\<rparr>,
         Segments = \<lparr>SegmentsStats.Count = 0, SegmentsStats.Memory = 0\<rparr>,
         FieldData = \<lparr>MemorySize = 0, Evictions = 0\<rparr>,
         FilterCache = \<lparr>MemorySize = 0, Evictions = 0\<rparr>,
         QueryCache = \<lparr>MemorySize = 0, Evictions = 0\<rparr>,
         RequestCache = \<lparr>MemorySize = 0, Evictions = 0\<rparr>\<rparr>,
      Transport = \<lparr>RxCount = 0, RxSize = 0, TxCount = 0, TxSize = 0\<rparr>,
      Process =
        \<lparr>CPU = \<lparr>Percent = 0, Sys = 0, User = 0, Total = 0\<rparr>,
         Memory = \<lparr>Resident = 0, Share = 0, TotalVirtual = 0\<rparr>,
         OpenFD = 0, MaxFD = 0\<rparr>\<rparr>"

definition example_node :: "string \<Rightarrow> int64 \<Rightarrow> NodeStatsNodeResponse" where
  "example_node host gcTime =
     zero_node
       \<lparr>Host := host,
        JVM := \<lparr>GC = \<lparr>Collectors = [''young'' \<mapsto> \<lparr>CollectionCount = 7, CollectionTime = gcTime\<rparr>]\<rparr>,
                Mem = Mem (JVM zero_node)\<rparr>,
        ThreadPool :=
          [''search'' \<mapsto>
             \<lparr>Threads = 4, Queue = 3, Active = 2, Rejected = 0, Largest = 5, Completed = 100\<rparr>],
        Indices :=
          (Indices zero_node)
            \<lparr>QueryCache := \<lparr>MemorySize = 111, Evictions = 3\<rparr>,
             RequestCache := \<lparr>MemorySize = 222, Evictions = 4\<rparr>\<rparr>\<rparr>"

definition example_stats :: NodeStatsResponse where
  "example_stats =
     \<lparr>NodeStatsResponse.ClusterName = ''es'',
      Nodes = [''n1'' \<mapsto> example_node ''10.0.0.1'' 2500]\<rparr>"

definition example_order :: range_order where
  "example_order =
     \<lparr>nodeOrder = [''n1''], collectorOrder = (\<lambda>n. [''young'']), breakerOrder = (\<lambda>n. []),
      poolOrder = (\<lambda>n. [''search''])\<rparr>"

definition example_health :: ClusterHealthResponse where
  "example_health =
     \<lparr>ClusterName = ''es'', Status = ''yellow'', TimedOut = False, NumberOfNodes = 1,
      NumberOfDataNodes = 1\<rparr>"

definition example_exporter :: Exporter where
  "example_exporter = NewExporter ''http://localhost:9200'' 5000000000 False False"

definition example_upstream :: upstream where
  "example_upstream =
     \<lparr>nodeStats = Unmarshalled example_stats, clusterHealth = Unmarshalled example_health\<rparr>"

text \<open>The samples a vector of the catalog contributes to the report, given its children.\<close>

definition family_samples :: "(family \<Rightarrow> string \<Rightarrow> (string list \<times> real) list option) \<Rightarrow> family \<Rightarrow> Metric list" where
  "family_samples reg fam =
     concat (map (\<lambda>(name, fq, k). map (\<lambda>(lvs, v). Metric fq lvs v) (the (reg fam name)))
       (catalog_shape fam))"

text \<open>
  An exporter that has been through a cycle on another document: one node, on the host
  10.0.0.9.
\<close>

definition stale_stats :: NodeStatsResponse where
  "stale_stats =
     \<lparr>NodeStatsResponse.ClusterName = ''es'', Nodes = [''n9'' \<mapsto> example_node ''10.0.0.9'' 100]\<rparr>"

definition stale_exporter :: Exporter where
  "stale_exporter =
     (case Collect example_exporter (example_order\<lparr>nodeOrder := [''n9'']\<rparr>)
             \<lparr>nodeStats = Unmarshalled stale_stats, clusterHealth = Unmarshalled example_health\<rparr> of
        Inr out \<Rightarrow> exporter out
      | Inl p \<Rightarrow> example_exporter)"

text \<open>No two statements of a list set the same series under the same labels to different values.\<close>

definition unambiguous :: "set_stmt list \<Rightarrow> bool" where
  "unambiguous ss \<longleftrightarrow>
     (\<forall>fam name lvs v v'. (fam, name, lvs, v) \<in> set ss \<and> (fam, name, lvs, v') \<in> set ss \<longrightarrow> v = v')"

text \<open>
  A document with two nodes, on the hosts \<open>h1\<close> and \<open>h2\<close>, and the two orders in which a
  loop can visit them.
\<close>

definition two_nodes :: "string \<Rightarrow> string \<Rightarrow> NodeStatsResponse" where
  "two_nodes h1 h2 =
     \<lparr>NodeStatsResponse.ClusterName = ''es'',
      Nodes = [''n1'' \<mapsto> example_node h1 1000, ''n2'' \<mapsto> example_node h2 2000]\<rparr>"

definition forward_order :: range_order where
  "forward_order = example_order\<lparr>nodeOrder := [''n1'', ''n2'']\<rparr>"

definition backward_order :: range_order where
  "backward_order = example_order\<lparr>nodeOrder := [''n2'', ''n1'']\<rparr>"

definition two_nodes_upstream :: "string \<Rightarrow> string \<Rightarrow> upstream" where
  "two_nodes_upstream h1 h2 =
     \<lparr>nodeStats = Unmarshalled (two_nodes h1 h2), clusterHealth = Unmarshalled example_health\<rparr>"

text \<open>
  The series a cycle's documents give rise to, read off the documents and not off the
  statements of the cycle: which vector, under which labels. For each node of the
  node-stats document, under the labels (cluster, host): the scalar series of its indices,
  transport and process statistics, listed in \<open>node_series\<close>; with the name of the
  collector, the breaker or the thread pool as a third label, the series of each collector,
  breaker and thread pool the snapshot has; with the area as a third label, the series of
  the JVM memory (the maximum for the heap only); with the kind as a third label, the CPU
  time of the process. For the cluster-health document, under the labels (cluster,
  \<open>unknown\<close>), its four series. The catalog's \<open>process_max_files_count\<close> and
  \<open>indices_merges_total_docs_total\<close> are in none of these: no cycle populates them.
\<close>

definition node_series :: "(family \<times> string) list" where
  "node_series =
     [(Gauges, ''indices_fielddata_memory_size_bytes''),
      (Counters, ''indices_fielddata_evictions''),
      (Gauges, ''indices_filter_cache_memory_size_bytes''),
      (Counters, ''indices_filter_cache_evictions''),
      (Gauges, ''indices_query_cache_memory_size_bytes''),
      (Counters, ''indices_query_cache_evictions''),
      (Gauges, ''indices_request_cache_memory_size_bytes''),
      (Counters, ''indices_request_cache_evictions''),
      (Gauges, ''indices_docs''),
      (Gauges, ''indices_docs_deleted''),
      (Gauges, ''indices_segments_memory_bytes''),
      (Gauges, ''indices_segments_count''),
      (Gauges, ''indices_store_size_bytes''),
      (Counters, ''indices_store_throttle_time_ms_total''),
      (Counters, ''indices_flush_total''),
      (Counters, ''indices_flush_time_ms_total''),
      (Counters, ''indices_indexing_index_time_ms_total''),
      (Counters, ''indices_indexing_index_total''),
      (Counters, ''indices_merges_total_time_ms_total''),
      (Counters, ''indices_merges_total_size_bytes_total''),
      (Counters, ''indices_merges_total''),
      (Counters, ''indices_refresh_total_time_ms_total''),
      (Counters, ''indices_refresh_total''),
      (Counters, ''transport_rx_packets_total''),
      (Counters, ''transport_rx_size_bytes_total''),
      (Counters, ''transport_tx_packets_total''),
      (Counters, ''transport_tx_size_bytes_total''),
      (Gauges, ''process_cpu_percent''),
      (Gauges, ''process_mem_resident_size_bytes''),
      (Gauges, ''process_mem_share_size_bytes''),
      (Gauges, ''process_mem_virtual_size_bytes''),
      (Gauges, ''process_open_files_count'')]"

definition observed_node :: "string \<Rightarrow> NodeStatsNodeResponse \<Rightarrow> (family \<times> string \<times> string list) set" where
  "observed_node cluster stats =
     {(CounterVecs, name, [cluster, Host stats, collector]) | name collector.
        name \<in> {''jvm_gc_collection_seconds_count'', ''jvm_gc_collection_seconds_sum''} \<and>
        collector \<in> dom (Collectors (GC (JVM stats)))} \<union>
     {(GaugeVecs, name, [cluster, Host stats, breaker]) | name breaker.
        name \<in> {''breakers_estimated_size_bytes'', ''breakers_limit_size_bytes''} \<and>
        breaker \<in> dom (Breakers stats)} \<union>
     {(CounterVecs, name, [cluster, Host stats, pool]) | name pool.
        name \<in> {''thread_pool_completed_count'', ''thread_pool_rejected_count''} \<and>
        pool \<in> dom (ThreadPool stats)} \<union>
     {(GaugeVecs, name, [cluster, Host stats, pool]) | name pool.
        name \<in> {''thread_pool_active_count'', ''thread_pool_threads_count'',
                 ''thread_pool_largest_count'', ''thread_pool_queue_count''} \<and>
        pool \<in> dom (ThreadPool stats)} \<union>
     {(GaugeVecs, ''jvm_memory_committed_bytes'', [cluster, Host stats, ''heap'']),
      (GaugeVecs, ''jvm_memory_used_bytes'', [cluster, Host stats, ''heap'']),
      (GaugeVecs, ''jvm_memory_max_bytes'', [cluster, Host stats, ''heap'']),
      (GaugeVecs, ''jvm_memory_committed_bytes'', [cluster, Host stats, ''non-heap'']),
      (GaugeVecs, ''jvm_memory_used_bytes'', [cluster, Host stats, ''non-heap''])} \<union>
     {(fam, name, [cluster, Host stats]) | fam name. (fam, name) \<in> set node_series} \<union>
     {(CounterVecs, ''process_cpu_time_seconds_sum'', [cluster, Host stats, kind]) | kind.
        kind \<in> {''total'', ''sys'', ''user''}}"

definition observed_health :: "ClusterHealthResponse \<Rightarrow> (family \<times> string \<times> string list) set" where
  "observed_health clusterStat =
     {(Gauges, name, [ClusterName clusterStat, ''unknown'']) | name.
        name \<in> {''cluster_health_status'', ''cluster_health_timed_out'',
                 ''cluster_number_of_nodes_total'', ''cluster_number_of_data_nodes_total''}}"

definition observed :: "upstream \<Rightarrow> (family \<times> string \<times> string list) set" where
  "observed env =
     (case nodeStats env of
        Unmarshalled allStats \<Rightarrow>
          (\<Union>stats\<in>ran (Nodes allStats).
              observed_node (NodeStatsResponse.ClusterName allStats) stats) \<union>
          (case clusterHealth env of
             Unmarshalled clusterStat \<Rightarrow> observed_health clusterStat
           | _ \<Rightarrow> {})
      | _ \<Rightarrow> {})"

text \<open>The vector and the labels a statement addresses.\<close>

definition stmt_key :: "set_stmt \<Rightarrow> family \<times> string \<times> string list" where
  "stmt_key = (\<lambda>(fam, name, lvs, v). (fam, name, lvs))"

section \<open>Statements and vectors\<close>

lemma exporter_ok_family: "exporter_ok e \<Longrightarrow> vec_shape (family_of fam e) = catalog_shape fam"
  by (cases fam) (simp_all add: exporter_ok_def)

lemma NewExporter_ok: "exporter_ok (NewExporter uri timeout a u)"
  by (simp add: exporter_ok_def NewExporter_def vec_shape_def catalog_shape_def NewVec_def
      case_prod_unfold comp_def)

lemma vec_shape_update:
  "map_of m name = Some vec \<Longrightarrow> fqName vec' = fqName vec \<Longrightarrow> labelNames vec' = labelNames vec
   \<Longrightarrow> vec_shape (AList.update name vec' m) = vec_shape m"
  by (induction m) (auto simp: vec_shape_def)

lemma family_of_put [simp]:
  "family_of f (family_put fam m e) = (if f = fam then m else family_of f e)"
  by (cases fam; cases f) simp_all

lemma up_family_put [simp]: "up (family_put fam m e) = up e"
  by (cases fam) simp_all

lemma allNodes_family_put [simp]: "allNodes (family_put fam m e) = allNodes e"
  by (cases fam) simp_all

lemma set_series_Inr:
  assumes "set_series e (fam, name, lvs, v) = Inr e'"
  shows "\<exists>vec. map_of (family_of fam e) name = Some vec \<and> length lvs = length (labelNames vec) \<and>
           e' = family_put fam (AList.update name (vec\<lparr>children := AList.update lvs v (children vec)\<rparr>)
                  (family_of fam e)) e"
  using assms by (auto simp: set_series.simps WithLabelValues_Set_def split: option.splits if_splits)

lemma set_series_shape:
  assumes "set_series e s = Inr e'"
  shows "vec_shape (family_of f e') = vec_shape (family_of f e)"
proof -
  obtain fam name lvs v where s: "s = (fam, name, lvs, v)" by (cases s)
  from set_series_Inr [OF assms [unfolded s]] show ?thesis
    by (auto simp: vec_shape_update)
qed

lemma set_series_up: "set_series e s = Inr e' \<Longrightarrow> up e' = up e \<and> allNodes e' = allNodes e"
  by (cases s) (auto dest!: set_series_Inr)

lemma set_series_series:
  assumes "set_series e (fam, name, lvs, v) = Inr e'"
  shows "series e' f n =
     (if f = fam \<and> n = name then map_option (AList.update lvs v) (series e f n) else series e f n)"
  using set_series_Inr [OF assms] by (auto simp: series_def update_conv')

lemma proj_Nil [simp]: "proj fam name [] = []"
  by (simp add: proj_def)

lemma proj_Cons [simp]:
  "proj fam name ((f, n, lvs, v) # ss) =
     (if f = fam \<and> n = name then (lvs, v) # proj fam name ss else proj fam name ss)"
  by (simp add: proj_def)

lemma proj_append [simp]: "proj fam name (xs @ ys) = proj fam name xs @ proj fam name ys"
  by (simp add: proj_def)

lemma proj_concat: "proj fam name (concat xss) = concat (map (proj fam name) xss)"
  by (induction xss) simp_all

lemma run_sets_shape:
  "run_sets e ss = Inr e' \<Longrightarrow> vec_shape (family_of f e') = vec_shape (family_of f e)"
proof (induction ss arbitrary: e)
  case Nil
  then show ?case by simp
next
  case (Cons s ss)
  then show ?case
    by (auto split: sum.splits simp: set_series_shape)
qed

lemma run_sets_up:
  "run_sets e ss = Inr e' \<Longrightarrow> up e' = up e \<and> allNodes e' = allNodes e"
proof (induction ss arbitrary: e)
  case Nil
  then show ?case by simp
next
  case (Cons s ss)
  then show ?case
    by (auto split: sum.splits dest: set_series_up)
qed

lemma run_sets_series:
  "run_sets e ss = Inr e' \<Longrightarrow>
   series e' f n = map_option (upsert_all (proj f n ss)) (series e f n)"
proof (induction ss arbitrary: e)
  case Nil
  then show ?case by (simp add: upsert_all_def option.map_ident)
next
  case (Cons s ss)
  obtain fam name lvs v where s: "s = (fam, name, lvs, v)" by (cases s)
  from Cons.prems obtain e1 where e1: "set_series e s = Inr e1" and rest: "run_sets e1 ss = Inr e'"
    by (auto split: sum.splits)
  have "series e' f n = map_option (upsert_all (proj f n ss)) (series e1 f n)"
    by (rule Cons.IH [OF rest])
  also have "\<dots> = map_option (upsert_all (proj f n (s # ss))) (series e f n)"
    using set_series_series [OF e1 [unfolded s]]
    by (cases "series e f n") (auto simp: s upsert_all_def)
  finally show ?case .
qed

lemma run_sets_append:
  "run_sets e (xs @ ys) = (case run_sets e xs of Inl p \<Rightarrow> Inl p | Inr e1 \<Rightarrow> run_sets e1 ys)"
  by (induction xs arbitrary: e) (auto split: sum.splits)

lemma map_of_vec_shape:
  "map_of (vec_shape m) name = map_option (\<lambda>vec. (fqName vec, length (labelNames vec))) (map_of m name)"
  by (induction m) (auto simp: vec_shape_def)

lemma set_series_total:
  assumes "vec_shape (family_of fam e) = catalog_shape fam" and "stmt_ok (fam, name, lvs, v)"
  shows "\<exists>e'. set_series e (fam, name, lvs, v) = Inr e'"
proof -
  from assms have "map_of (vec_shape (family_of fam e)) name = Some (BuildFQName namespace name, length lvs)"
    by (simp add: stmt_ok_def)
  then obtain vec where "map_of (family_of fam e) name = Some vec" "length (labelNames vec) = length lvs"
    by (auto simp: map_of_vec_shape)
  then show ?thesis
    by (simp add: set_series.simps WithLabelValues_Set_def)
qed

lemma run_sets_total:
  "exporter_ok e \<Longrightarrow> list_all stmt_ok ss \<Longrightarrow> \<exists>e'. run_sets e ss = Inr e'"
proof (induction ss arbitrary: e)
  case Nil
  then show ?case by simp
next
  case (Cons s ss)
  obtain fam name lvs v where s: "s = (fam, name, lvs, v)" by (cases s)
  from Cons.prems have "\<exists>e1. set_series e s = Inr e1"
    unfolding s by (auto intro!: set_series_total simp: exporter_ok_family)
  then obtain e1 where e1: "set_series e s = Inr e1" ..
  have "exporter_ok e1"
    using Cons.prems(1) set_series_shape [OF e1]
    by (simp add: exporter_ok_def) (metis family_of.simps)
  with Cons.IH [of e1] Cons.prems(2) e1 show ?case by auto
qed

lemma catalog_names_distinct: "distinct (map fst (catalog_shape fam))"
  by (cases fam)
    (simp_all add: catalog_shape_def gaugeMetrics_def counterMetrics_def gaugeVecMetrics_def
      counterVecMetrics_def)

lemma catalog_fqName: "(name, fq, k) \<in> set (catalog_shape fam) \<Longrightarrow> fq = BuildFQName namespace name"
  by (cases fam) (auto simp: catalog_shape_def)

lemma list_all_concat_map: "list_all P (concat (map f xs)) = list_all (\<lambda>x. list_all P (f x)) xs"
  by (induction xs) simp_all

lemma map_of_shape:
  "map_of (map (\<lambda>(name, x). (name, g name, h x)) xs) n = map_option (\<lambda>x. (g n, h x)) (map_of xs n)"
  by (induction xs) auto

lemma stmt_ok_Gauges:
  "stmt_ok (Gauges, name, lvs, v) \<longleftrightarrow> map_of gaugeMetrics name \<noteq> None \<and> length lvs = 2"
  unfolding stmt_ok_def catalog_shape_def by (auto simp: map_of_shape)

lemma stmt_ok_Counters:
  "stmt_ok (Counters, name, lvs, v) \<longleftrightarrow> map_of counterMetrics name \<noteq> None \<and> length lvs = 2"
  unfolding stmt_ok_def catalog_shape_def by (auto simp: map_of_shape)

lemma stmt_ok_GaugeVecs:
  "stmt_ok (GaugeVecs, name, lvs, v) \<longleftrightarrow>
     map_option (\<lambda>info. 2 + length (labels info)) (map_of gaugeVecMetrics name) = Some (length lvs)"
  unfolding stmt_ok_def catalog_shape_def by (auto simp: map_of_shape)

lemma stmt_ok_CounterVecs:
  "stmt_ok (CounterVecs, name, lvs, v) \<longleftrightarrow>
     map_option (\<lambda>info. 2 + length (labels info)) (map_of counterVecMetrics name) = Some (length lvs)"
  unfolding stmt_ok_def catalog_shape_def by (auto simp: map_of_shape)

lemmas stmt_ok_simps = stmt_ok_Gauges stmt_ok_Counters stmt_ok_GaugeVecs stmt_ok_CounterVecs

lemma gc_sets_ok: "list_all stmt_ok (gc_sets c h xs)"
  by (simp add: gc_sets_def list_all_concat_map stmt_ok_CounterVecs counterVecMetrics_def
      case_prod_unfold list.pred_True)

lemma breaker_sets_ok: "list_all stmt_ok (breaker_sets c h xs)"
  by (simp add: breaker_sets_def list_all_concat_map stmt_ok_GaugeVecs gaugeVecMetrics_def
      case_prod_unfold list.pred_True)

lemma pool_sets_ok: "list_all stmt_ok (pool_sets c h xs)"
  by (simp add: pool_sets_def list_all_concat_map stmt_ok_simps gaugeVecMetrics_def
      counterVecMetrics_def case_prod_unfold list.pred_True)

lemma jvm_mem_sets_ok: "list_all stmt_ok (jvm_mem_sets c h m)"
  by (simp add: jvm_mem_sets_def stmt_ok_GaugeVecs gaugeVecMetrics_def)

lemma indices_sets_ok: "list_all stmt_ok (indices_sets c h i)"
  by (simp add: indices_sets_def stmt_ok_simps gaugeMetrics_def counterMetrics_def)

lemma transport_sets_ok: "list_all stmt_ok (transport_sets c h i)"
  by (simp add: transport_sets_def stmt_ok_simps counterMetrics_def)

lemma process_sets_ok: "list_all stmt_ok (process_sets c h i)"
  by (simp add: process_sets_def stmt_ok_simps gaugeMetrics_def counterVecMetrics_def)

lemma node_sets_ok: "list_all stmt_ok (node_sets ord c ns)"
  by (cases ns)
    (simp add: node_sets_def gc_sets_ok breaker_sets_ok pool_sets_ok jvm_mem_sets_ok
      indices_sets_ok transport_sets_ok process_sets_ok)

lemma populate_sets_ok: "list_all stmt_ok (populate_sets ord allStats)"
  by (simp add: populate_sets_def list_all_concat_map node_sets_ok list.pred_True)

lemma health_sets_ok: "list_all stmt_ok (health_sets clusterStat)"
  by (simp add: health_sets_def stmt_ok_Gauges gaugeMetrics_def)

lemma vec_shape_Reset [simp]: "vec_shape (map (\<lambda>(name, vec). (name, Reset vec)) m) = vec_shape m"
  by (simp add: vec_shape_def Reset_def case_prod_unfold)

lemma exporter_ok_reset_all [simp]: "exporter_ok (reset_all e) = exporter_ok e"
  by (simp add: exporter_ok_def reset_all_def)

lemma exporter_ok_up [simp]: "exporter_ok (e\<lparr>up := x\<rparr>) = exporter_ok e"
  by (simp add: exporter_ok_def)

lemma family_of_up [simp]: "family_of fam (e\<lparr>up := x\<rparr>) = family_of fam e"
  by (cases fam) simp_all

lemma series_up [simp]: "series (e\<lparr>up := x\<rparr>) fam name = series e fam name"
  by (simp add: series_def)

lemma map_of_Reset:
  "map_option children (map_of (map (\<lambda>(name, vec). (name, Reset vec)) m) n) =
     map_option (\<lambda>cs. []) (map_option children (map_of m n))"
  by (induction m) (auto simp: Reset_def)

lemma series_reset_all: "series (reset_all e) fam name = map_option (\<lambda>cs. []) (series e fam name)"
  by (cases fam)
    (simp_all add: series_def reset_all_def map_of_Reset)

lemma series_defined:
  assumes "exporter_ok e"
  shows "series e fam name \<noteq> None \<longleftrightarrow> name \<in> fst ` set (catalog_shape fam)"
proof -
  have "series e fam name \<noteq> None \<longleftrightarrow> map_of (vec_shape (family_of fam e)) name \<noteq> None"
    by (simp add: series_def map_of_vec_shape)
  also have "\<dots> \<longleftrightarrow> name \<in> fst ` set (catalog_shape fam)"
    by (simp add: exporter_ok_family [OF assms] map_of_eq_None_iff)
  finally show ?thesis .
qed

lemma run_from_reset:
  assumes "exporter_ok e" and "list_all stmt_ok ss"
  shows "\<exists>e1. run_sets ((reset_all e)\<lparr>up := x\<rparr>) ss = Inr e1 \<and> exporter_ok e1 \<and> up e1 = x \<and>
           allNodes e1 = allNodes e \<and> (\<forall>f n. series e1 f n = registry_after ss f n)"
proof -
  let ?e0 = "(reset_all e)\<lparr>up := x\<rparr>"
  have ok0: "exporter_ok ?e0" using assms(1) by simp
  from run_sets_total [OF ok0 assms(2)] obtain e1 where e1: "run_sets ?e0 ss = Inr e1" ..
  have ok1: "exporter_ok e1"
    using ok0 run_sets_shape [OF e1] by (simp add: exporter_ok_def) (metis family_of.simps)
  have "series e1 f n = registry_after ss f n" for f n
  proof (cases "n \<in> fst ` set (catalog_shape f)")
    case True
    then obtain cs where "series e f n = Some cs"
      using series_defined [OF assms(1), of f n] by auto
    then show ?thesis
      using True by (simp add: run_sets_series [OF e1] series_reset_all registry_after_def)
  next
    case False
    then have "series e f n = None"
      using series_defined [OF assms(1), of f n] by auto
    then show ?thesis
      using False by (simp add: run_sets_series [OF e1] series_reset_all registry_after_def)
  qed
  moreover have "up e1 = x" "allNodes e1 = allNodes e"
    using run_sets_up [OF e1] by (simp_all add: reset_all_def)
  ultimately show ?thesis using e1 ok1 by blast
qed

lemma cycle_sets_ok: "list_all stmt_ok (cycle_sets ord env)"
  by (simp add: cycle_sets_def populate_sets_ok health_sets_ok split: fetched.splits)

lemma Collect_outcome:
  assumes "exporter_ok e"
  shows "\<exists>out. Collect e ord env = Inr out \<and> exporter_ok (exporter out) \<and>
           up (exporter out) = up_after env \<and>
           (\<forall>f n. series (exporter out) f n = registry_after (cycle_sets ord env) f n) \<and>
           sent out = (if reports env then report (exporter out) else []) @ [up_metric (exporter out)]"
proof -
  from run_from_reset [OF assms cycle_sets_ok, of "up_after env" ord env]
  obtain e1 where e1: "run_sets ((reset_all e)\<lparr>up := up_after env\<rparr>) (cycle_sets ord env) = Inr e1"
    and ok1: "exporter_ok e1" and up1: "up e1 = up_after env"
    and reg: "\<forall>f n. series e1 f n = registry_after (cycle_sets ord env) f n"
    by blast
  have "Collect e ord env =
          returned e1 (if reports env then report e1 else [])
            (logged (projr (Collect e ord env)))"
    using e1
    by (auto simp: Collect_def Let_def returned_def cycle_sets_def reports_def up_after_def
        run_sets_append split: fetched.splits sum.splits)
  then show ?thesis
    using ok1 up1 reg by (auto simp: returned_def)
qed

lemma map_of_upsert_all:
  "map_of (upsert_all kvs cs) lvs =
     (case map_of (rev kvs) lvs of Some v \<Rightarrow> Some v | None \<Rightarrow> map_of cs lvs)"
proof (induction kvs arbitrary: cs)
  case Nil
  then show ?case by (simp add: upsert_all_def)
next
  case (Cons kv kvs)
  obtain k v where kv: "kv = (k, v)" by (cases kv)
  have "upsert_all (kv # kvs) cs = upsert_all kvs (AList.update k v cs)"
    by (simp add: upsert_all_def kv)
  then show ?case
    using Cons.IH [of "AList.update k v cs"]
    by (auto simp: kv update_conv' map_add_def split: option.splits)
qed

lemma distinct_upsert_all:
  "distinct (map fst cs) \<Longrightarrow> distinct (map fst (upsert_all kvs cs))"
proof (induction kvs arbitrary: cs)
  case Nil
  then show ?case by (simp add: upsert_all_def)
next
  case (Cons kv kvs)
  obtain k v where kv: "kv = (k, v)" by (cases kv)
  have "upsert_all (kv # kvs) cs = upsert_all kvs (AList.update k v cs)"
    by (simp add: upsert_all_def kv)
  then show ?case
    using Cons.IH [of "AList.update k v cs"] Cons.prems by (simp add: distinct_update)
qed

lemma mem_upsert_all:
  "(lvs, v) \<in> set (upsert_all kvs []) \<longleftrightarrow> map_of (rev kvs) lvs = Some v"
proof -
  have "distinct (map fst (upsert_all kvs []))" by (simp add: distinct_upsert_all)
  then have "(lvs, v) \<in> set (upsert_all kvs []) \<longleftrightarrow> map_of (upsert_all kvs []) lvs = Some v"
    by simp
  then show ?thesis by (simp add: map_of_upsert_all split: option.splits)
qed

lemma BuildFQName_inj [simp]: "BuildFQName ns a = BuildFQName ns b \<longleftrightarrow> a = b"
  by (simp add: BuildFQName_def)

lemma mem_Collect_vec:
  "m \<in> set (Collect_vec vec) \<longleftrightarrow> (\<exists>lvs v. m = Metric (fqName vec) lvs v \<and> (lvs, v) \<in> set (children vec))"
  by (auto simp: Collect_vec_def)

lemma ex_family: "(\<exists>fam. Q fam) \<longleftrightarrow> Q CounterVecs \<or> Q GaugeVecs \<or> Q Counters \<or> Q Gauges"
  by (metis family.exhaust)

lemma mem_report:
  "m \<in> set (report e) \<longleftrightarrow>
     (\<exists>fam name vec. (name, vec) \<in> set (family_of fam e) \<and> m \<in> set (Collect_vec vec))"
  by (simp add: ex_family report_def case_prod_unfold Bex_def)

lemma family_entry:
  assumes "exporter_ok e" and "(name, vec) \<in> set (family_of fam e)"
  shows "fqName vec = BuildFQName namespace name" and "series e fam name = Some (children vec)"
    and "name \<in> fst ` set (catalog_shape fam)"
proof -
  have shape: "vec_shape (family_of fam e) = catalog_shape fam"
    by (rule exporter_ok_family [OF assms(1)])
  have "(name, fqName vec, length (labelNames vec)) \<in> set (vec_shape (family_of fam e))"
    using assms(2) by (force simp: vec_shape_def)
  then have in_cat: "(name, fqName vec, length (labelNames vec)) \<in> set (catalog_shape fam)"
    by (simp add: shape)
  then show "fqName vec = BuildFQName namespace name" by (rule catalog_fqName)
  from in_cat show "name \<in> fst ` set (catalog_shape fam)" by force
  have "map fst (family_of fam e) = map fst (vec_shape (family_of fam e))"
    by (simp add: vec_shape_def case_prod_unfold)
  then have "distinct (map fst (family_of fam e))"
    by (simp add: shape catalog_names_distinct)
  then have "map_of (family_of fam e) name = Some vec"
    using assms(2) by simp
  then show "series e fam name = Some (children vec)" by (simp add: series_def)
qed

lemma series_entry:
  assumes "series e fam name = Some cs"
  shows "\<exists>vec. (name, vec) \<in> set (family_of fam e) \<and> children vec = cs"
  using assms by (auto simp: series_def dest: map_of_SomeD)

lemma report_exposes:
  assumes "exporter_ok e"
  shows "Metric (BuildFQName namespace name) lvs v \<in> set (report e) \<longleftrightarrow>
           (\<exists>fam cs. series e fam name = Some cs \<and> (lvs, v) \<in> set cs)"
proof
  assume "Metric (BuildFQName namespace name) lvs v \<in> set (report e)"
  then obtain fam name' vec where in_fam: "(name', vec) \<in> set (family_of fam e)"
    and m: "Metric (BuildFQName namespace name) lvs v \<in> set (Collect_vec vec)"
    by (auto simp: mem_report)
  from m have "fqName vec = BuildFQName namespace name" and ch: "(lvs, v) \<in> set (children vec)"
    by (auto simp: mem_Collect_vec)
  with family_entry(1) [OF assms in_fam] have "name' = name" by simp
  with family_entry(2) [OF assms in_fam] ch
  show "\<exists>fam cs. series e fam name = Some cs \<and> (lvs, v) \<in> set cs" by blast
next
  assume "\<exists>fam cs. series e fam name = Some cs \<and> (lvs, v) \<in> set cs"
  then obtain fam cs where s: "series e fam name = Some cs" and ch: "(lvs, v) \<in> set cs" by blast
  from series_entry [OF s] obtain vec where in_fam: "(name, vec) \<in> set (family_of fam e)"
    and cs: "children vec = cs" by blast
  have "Metric (BuildFQName namespace name) lvs v \<in> set (Collect_vec vec)"
    using family_entry(1) [OF assms in_fam] ch cs by (auto simp: mem_Collect_vec)
  with in_fam show "Metric (BuildFQName namespace name) lvs v \<in> set (report e)"
    by (auto simp: mem_report)
qed

lemma report_names:
  assumes "exporter_ok e" and "m \<in> set (report e)"
  shows "\<exists>fam name. name \<in> fst ` set (catalog_shape fam) \<and> mName m = BuildFQName namespace name"
proof -
  from assms(2) obtain fam name vec where in_fam: "(name, vec) \<in> set (family_of fam e)"
    and m: "m \<in> set (Collect_vec vec)"
    by (auto simp: mem_report)
  from m have "mName m = fqName vec" by (auto simp: mem_Collect_vec)
  with family_entry(1,3) [OF assms(1) in_fam] show ?thesis by auto
qed

lemma up_not_in_catalog: "''up'' \<notin> fst ` set (catalog_shape fam)"
  by (cases fam)
    (simp_all add: catalog_shape_def gaugeMetrics_def counterMetrics_def gaugeVecMetrics_def
      counterVecMetrics_def)

lemma report_no_up:
  assumes "exporter_ok e"
  shows "filter (\<lambda>m. mName m = BuildFQName namespace ''up'') (report e) = []"
proof -
  have "mName m \<noteq> BuildFQName namespace ''up''" if "m \<in> set (report e)" for m
  proof
    assume up: "mName m = BuildFQName namespace ''up''"
    from report_names [OF assms that] obtain fam name
      where "name \<in> fst ` set (catalog_shape fam)" "mName m = BuildFQName namespace name"
      by blast
    with up have "''up'' \<in> fst ` set (catalog_shape fam)" by simp
    then show False by (simp add: up_not_in_catalog)
  qed
  then show ?thesis by (simp add: filter_empty_conv)
qed

lemma Collect_reads:
  assumes "exporter_ok e"
  shows "\<exists>out. Collect e ord env = Inr out \<and> exporter_ok (exporter out) \<and>
           up (exporter out) = up_after env \<and>
           sent out = (if reports env then report (exporter out) else []) @ [up_metric (exporter out)] \<and>
           (\<forall>fam name. series (exporter out) fam name = registry_after (cycle_sets ord env) fam name) \<and>
           (\<forall>name lvs v. name \<noteq> ''up'' \<longrightarrow>
              exposed out name lvs v =
                (reports env \<and> (\<exists>fam. name \<in> fst ` set (catalog_shape fam) \<and>
                   map_of (rev (proj fam name (cycle_sets ord env))) lvs = Some v)))"
proof -
  from Collect_outcome [OF assms, of ord env] obtain out
    where out: "Collect e ord env = Inr out" and ok: "exporter_ok (exporter out)"
      and up: "up (exporter out) = up_after env"
      and reg: "\<forall>f n. series (exporter out) f n = registry_after (cycle_sets ord env) f n"
      and sent: "sent out = (if reports env then report (exporter out) else []) @ [up_metric (exporter out)]"
    by blast
  have "exposed out name lvs v =
          (reports env \<and> (\<exists>fam. name \<in> fst ` set (catalog_shape fam) \<and>
             map_of (rev (proj fam name (cycle_sets ord env))) lvs = Some v))"
    if "name \<noteq> ''up''" for name lvs v
  proof -
    have "exposed out name lvs v \<longleftrightarrow>
            reports env \<and> Metric (BuildFQName namespace name) lvs v \<in> set (report (exporter out))"
      using that by (auto simp: exposed_def sent up_metric_def)
    also have "\<dots> \<longleftrightarrow> reports env \<and>
        (\<exists>fam. name \<in> fst ` set (catalog_shape fam) \<and>
           (lvs, v) \<in> set (upsert_all (proj fam name (cycle_sets ord env)) []))"
      by (auto simp: report_exposes [OF ok] reg registry_after_def)
    finally show ?thesis by (simp add: mem_upsert_all)
  qed
  with out ok up reg sent show ?thesis by blast
qed

lemma series_value_after:
  "series_value e fam name lvs =
     (case series e fam name of None \<Rightarrow> None | Some cs \<Rightarrow> map_of cs lvs)"
  by (simp add: series_value_def)

lemma proj_concat_map: "proj fam name (concat (map f xs)) = concat (map (\<lambda>x. proj fam name (f x)) xs)"
  by (simp add: proj_concat comp_def)

lemmas sets_defs = node_sets_def gc_sets_def breaker_sets_def pool_sets_def jvm_mem_sets_def
  indices_sets_def transport_sets_def process_sets_def

lemma proj_max_files_node: "proj fam ''process_max_files_count'' (node_sets ord c ns) = []"
  by (cases ns) (simp add: sets_defs proj_concat_map case_prod_unfold)

lemma proj_max_files: "proj fam ''process_max_files_count'' (cycle_sets ord env) = []"
  by (simp add: cycle_sets_def populate_sets_def proj_concat_map proj_max_files_node health_sets_def
      split: fetched.splits)

lemma example_exporter_ok: "exporter_ok example_exporter"
  by (simp add: example_exporter_def NewExporter_ok)

lemma up_after_cases: "up_after env = 0 \<or> up_after env = 1"
  by (simp add: up_after_def split: fetched.splits)

text \<open>
  C6: every collection cycle, whichever of its fetches fails, sends exactly one sample of
  the availability gauge, and its value is 0 or 1.
\<close>

theorem availability_sent_once:
  assumes "exporter_ok e"
  shows "\<exists>out. Collect e ord env = Inr out \<and>
           filter (\<lambda>m. mName m = BuildFQName namespace ''up'') (sent out) =
             [Metric (BuildFQName namespace ''up'') [] (up (exporter out))] \<and>
           (up (exporter out) = 0 \<or> up (exporter out) = 1)"
proof -
  from Collect_reads [OF assms, of ord env] obtain out
    where out: "Collect e ord env = Inr out" and ok: "exporter_ok (exporter out)"
      and up: "up (exporter out) = up_after env"
      and sent: "sent out = (if reports env then report (exporter out) else []) @ [up_metric (exporter out)]"
    by blast
  have "filter (\<lambda>m. mName m = BuildFQName namespace ''up'') (sent out) =
          [Metric (BuildFQName namespace ''up'') [] (up (exporter out))]"
    by (simp add: sent report_no_up [OF ok] up_metric_def)
  with out up up_after_cases [of env] show ?thesis by auto
qed

theorem availability_sent_once_witness:
  "exporter_ok example_exporter \<and>
   (\<exists>out. Collect example_exporter example_order
             \<lparr>nodeStats = ReadFailed, clusterHealth = GetFailed\<rparr> = Inr out \<and>
      filter (\<lambda>m. mName m = BuildFQName namespace ''up'') (sent out) =
        [Metric (BuildFQName namespace ''up'') [] (up (exporter out))] \<and>
      (up (exporter out) = 0 \<or> up (exporter out) = 1))"
  using availability_sent_once [OF example_exporter_ok] example_exporter_ok by blast

lemma Collect_UnmarshalFailed:
  "nodeStats env = UnmarshalFailed \<Longrightarrow>
   Collect e ord env =
     returned ((reset_all e)\<lparr>up := 1\<rparr>) [] [''Failed to unmarshal JSON into struct:'']"
  by (simp add: Collect_def)

lemma series_value_reset [simp]: "series_value ((reset_all e)\<lparr>up := x\<rparr>) fam name lvs = None"
  by (simp add: series_value_def series_reset_all split: option.splits)

lemma Collect_fetch_failed:
  "nodeStats env = GetFailed \<or> nodeStats env = ReadFailed \<Longrightarrow>
   \<exists>out. Collect e ord env = Inr out \<and> sent out = [Metric (BuildFQName namespace ''up'') [] 0]"
  by (auto simp: Collect_def returned_def up_metric_def)

text \<open>
  C3, as the code has it: when the body of the node-stats response cannot be decoded,
  the cycle sends the availability gauge with the value 1 and nothing else, logs the
  failure and leaves every vector empty. The two error branches before it, for the
  request and for the reading of the body, set the gauge to 0 (\<open>Collect_fetch_failed\<close>);
  this one returns with the 1 that was set before the decoding.
\<close>

theorem unmarshal_failure_keeps_up:
  assumes "nodeStats env = UnmarshalFailed"
  shows "\<exists>out. Collect e ord env = Inr out \<and>
           sent out = [Metric (BuildFQName namespace ''up'') [] 1] \<and>
           logged out = [''Failed to unmarshal JSON into struct:''] \<and>
           (\<forall>fam name lvs. series_value (exporter out) fam name lvs = None)"
  by (simp add: Collect_UnmarshalFailed [OF assms] returned_def up_metric_def)

theorem unmarshal_failure_keeps_up_witness:
  "nodeStats \<lparr>nodeStats = UnmarshalFailed, clusterHealth = Unmarshalled example_health\<rparr> = UnmarshalFailed \<and>
   (\<exists>out. Collect example_exporter example_order
             \<lparr>nodeStats = UnmarshalFailed, clusterHealth = Unmarshalled example_health\<rparr> = Inr out \<and>
           sent out = [Metric (BuildFQName namespace ''up'') [] 1] \<and>
           logged out = [''Failed to unmarshal JSON into struct:''] \<and>
           (\<forall>fam name lvs. series_value (exporter out) fam name lvs = None))"
  using unmarshal_failure_keeps_up
    [of "\<lparr>nodeStats = UnmarshalFailed, clusterHealth = Unmarshalled example_health\<rparr>"
      example_exporter example_order]
  by simp

text \<open>
  The failing input of C3: with an undecodable node-stats body the cycle sends the
  availability value 1, and no sample of the availability gauge with the value 0.
\<close>

theorem unmarshal_failure_counterexample:
  "(\<exists>out. Collect example_exporter example_order
             \<lparr>nodeStats = UnmarshalFailed, clusterHealth = Unmarshalled example_health\<rparr> = Inr out \<and>
           sent out = [Metric ''elasticsearch_up'' [] 1]) \<and>
   \<not> (\<exists>out. Collect example_exporter example_order
             \<lparr>nodeStats = UnmarshalFailed, clusterHealth = Unmarshalled example_health\<rparr> = Inr out \<and>
           Metric ''elasticsearch_up'' [] 0 \<in> set (sent out))"
  by (simp add: Collect_UnmarshalFailed returned_def up_metric_def BuildFQName_def namespace_def)

text \<open>
  C10: the catalog declares \<open>process_max_files_count\<close> with its help text, and no cycle,
  whatever it fetches, sets a value of it or sends a sample of it.
\<close>

theorem max_files_never_populated:
  assumes "exporter_ok e"
  shows "map_of gaugeMetrics ''process_max_files_count'' = Some ''Max file descriptors for process'' \<and>
         (\<exists>out. Collect e ord env = Inr out \<and>
            series (exporter out) Gauges ''process_max_files_count'' = Some [] \<and>
            (\<forall>lvs v. \<not> exposed out ''process_max_files_count'' lvs v))"
proof -
  from Collect_reads [OF assms, of ord env] obtain out
    where out: "Collect e ord env = Inr out"
      and reg: "\<forall>fam name. series (exporter out) fam name = registry_after (cycle_sets ord env) fam name"
      and ex: "\<forall>name lvs v. name \<noteq> ''up'' \<longrightarrow>
              exposed out name lvs v =
                (reports env \<and> (\<exists>fam. name \<in> fst ` set (catalog_shape fam) \<and>
                   map_of (rev (proj fam name (cycle_sets ord env))) lvs = Some v))"
    by blast
  have "series (exporter out) Gauges ''process_max_files_count'' = Some []"
    by (simp add: reg registry_after_def proj_max_files upsert_all_def catalog_shape_def
        gaugeMetrics_def)
  moreover have "\<not> exposed out ''process_max_files_count'' lvs v" for lvs v
    using ex by (simp add: proj_max_files)
  moreover have "map_of gaugeMetrics ''process_max_files_count'' = Some ''Max file descriptors for process''"
    by (simp add: gaugeMetrics_def)
  ultimately show ?thesis using out by blast
qed

theorem max_files_never_populated_witness:
  "exporter_ok example_exporter \<and>
   map_of gaugeMetrics ''process_max_files_count'' = Some ''Max file descriptors for process'' \<and>
   (\<exists>out. Collect example_exporter example_order
             \<lparr>nodeStats = Unmarshalled example_stats, clusterHealth = Unmarshalled example_health\<rparr> =
             Inr out \<and>
      series (exporter out) Gauges ''process_max_files_count'' = Some [] \<and>
      (\<forall>lvs v. \<not> exposed out ''process_max_files_count'' lvs v))"
  using max_files_never_populated [OF example_exporter_ok] example_exporter_ok by blast

lemma proj_health_status_node: "proj fam ''cluster_health_status'' (node_sets ord c ns) = []"
  by (cases ns) (simp add: sets_defs proj_concat_map case_prod_unfold)

lemma proj_health_status_populate: "proj fam ''cluster_health_status'' (populate_sets ord allStats) = []"
  by (simp add: populate_sets_def proj_concat_map proj_health_status_node)

lemma health_status_in_catalog:
  "''cluster_health_status'' \<in> fst ` set (catalog_shape fam) \<longleftrightarrow> fam = Gauges"
  by (cases fam)
    (simp_all add: catalog_shape_def gaugeMetrics_def counterMetrics_def gaugeVecMetrics_def
      counterVecMetrics_def)

text \<open>
  C5: when both documents are fetched and decoded, the cycle sends exactly one sample of
  \<open>cluster_health_status\<close>, labelled with the cluster name of the health document and the
  node \<open>unknown\<close>; its value is 0 for the status green, 1 for yellow, 2 for red and 0 for
  any other status.
\<close>

theorem health_status_ordinal:
  assumes "exporter_ok e"
    and "nodeStats env = Unmarshalled allStats"
    and "clusterHealth env = Unmarshalled clusterStat"
  shows "\<exists>out. Collect e ord env = Inr out \<and>
           (\<forall>lvs v. exposed out ''cluster_health_status'' lvs v =
              (lvs = [ClusterName clusterStat, ''unknown''] \<and>
               v = (if Status clusterStat = ''green'' then 0
                    else if Status clusterStat = ''yellow'' then 1
                    else if Status clusterStat = ''red'' then 2
                    else 0)))"
proof -
  from Collect_reads [OF assms(1), of ord env] obtain out
    where out: "Collect e ord env = Inr out"
      and ex: "\<forall>name lvs v. name \<noteq> ''up'' \<longrightarrow>
              exposed out name lvs v =
                (reports env \<and> (\<exists>fam. name \<in> fst ` set (catalog_shape fam) \<and>
                   map_of (rev (proj fam name (cycle_sets ord env))) lvs = Some v))"
    by blast
  have rep: "reports env" using assms(2,3) by (simp add: reports_def)
  have sets: "proj Gauges ''cluster_health_status'' (cycle_sets ord env) =
      [([ClusterName clusterStat, ''unknown''], health_status_value (Status clusterStat))]"
    using assms(2,3)
    by (simp add: cycle_sets_def proj_health_status_populate health_sets_def)
  have "exposed out ''cluster_health_status'' lvs v =
          (lvs = [ClusterName clusterStat, ''unknown''] \<and> v = health_status_value (Status clusterStat))"
    for lvs v
    using ex rep by (auto simp: health_status_in_catalog sets)
  then show ?thesis using out by (auto simp: health_status_value_def)
qed

theorem health_status_ordinal_witness:
  "exporter_ok example_exporter \<and>
   nodeStats \<lparr>nodeStats = Unmarshalled example_stats, clusterHealth = Unmarshalled example_health\<rparr> =
     Unmarshalled example_stats \<and>
   clusterHealth \<lparr>nodeStats = Unmarshalled example_stats, clusterHealth = Unmarshalled example_health\<rparr> =
     Unmarshalled example_health \<and>
   (\<exists>out. Collect example_exporter example_order
             \<lparr>nodeStats = Unmarshalled example_stats, clusterHealth = Unmarshalled example_health\<rparr> =
             Inr out \<and>
      (\<forall>lvs v. exposed out ''cluster_health_status'' lvs v = (lvs = [''es'', ''unknown''] \<and> v = 1)))"
  using health_status_ordinal [OF example_exporter_ok, of
      "\<lparr>nodeStats = Unmarshalled example_stats, clusterHealth = Unmarshalled example_health\<rparr>"
      example_stats example_health example_order]
    example_exporter_ok
  by (simp add: example_health_def)

lemma mem_range_map: "(k, v) \<in> set (range_map m ks) \<longleftrightarrow> k \<in> set ks \<and> m k = Some v"
  by (induction ks) (auto simp: range_map_def List.map_filter_simps split: option.splits)

lemma last_write:
  assumes "(k, v) \<in> set kvs" and "\<And>v'. (k, v') \<in> set kvs \<Longrightarrow> v' = v"
  shows "map_of (rev kvs) k = Some v"
proof -
  have "k \<in> fst ` set (rev kvs)" using assms(1) by force
  then obtain v' where v': "map_of (rev kvs) k = Some v'"
    by (cases "map_of (rev kvs) k") (auto simp: map_of_eq_None_iff)
  then have "(k, v') \<in> set kvs" by (auto dest: map_of_SomeD)
  with assms(2) v' show ?thesis by simp
qed

lemma set_proj_populate:
  "set (proj fam name (populate_sets ord a)) =
     (\<Union>ns\<in>set (range_map (Nodes a) (nodeOrder ord)).
        set (proj fam name (node_sets ord (NodeStatsResponse.ClusterName a) ns)))"
  by (simp add: populate_sets_def proj_concat_map)

lemma same_host_same_node:
  assumes "hosts_distinct a ord"
    and "(n, s) \<in> set (range_map (Nodes a) (nodeOrder ord))"
    and "(n', s') \<in> set (range_map (Nodes a) (nodeOrder ord))"
    and "Host s = Host s'"
  shows "n = n' \<and> s = s'"
proof -
  let ?h = "\<lambda>(n, stats). Host stats"
  have "inj_on ?h (set (range_map (Nodes a) (nodeOrder ord)))"
    using assms(1) by (simp add: hosts_distinct_def distinct_map)
  from inj_onD [OF this _ assms(2,3)] assms(4) show ?thesis by simp
qed

lemma order_ok_node:
  assumes "order_ok a ord" and "Nodes a n = Some s"
  shows "(n, s) \<in> set (range_map (Nodes a) (nodeOrder ord))"
    and "visits (Collectors (GC (JVM s))) (collectorOrder ord n)"
    and "visits (Breakers s) (breakerOrder ord n)"
    and "visits (ThreadPool s) (poolOrder ord n)"
proof -
  from assms show in_range: "(n, s) \<in> set (range_map (Nodes a) (nodeOrder ord))"
    by (auto simp: order_ok_def visits_def mem_range_map)
  with assms(1) show "visits (Collectors (GC (JVM s))) (collectorOrder ord n)"
    and "visits (Breakers s) (breakerOrder ord n)"
    and "visits (ThreadPool s) (poolOrder ord n)"
    by (auto simp: order_ok_def list_all_iff)
qed

lemma visits_entry: "visits m ks \<Longrightarrow> m k = Some v \<Longrightarrow> (k, v) \<in> set (range_map m ks)"
  by (auto simp: visits_def mem_range_map)

text \<open>The pairs one node contributes to the vectors of the thread pools and the collectors.\<close>

lemma concat_map_single: "concat (map (\<lambda>x. [f x]) xs) = map f xs"
  by (induction xs) simp_all

lemma proj_pool_gauges_node:
  "proj GaugeVecs ''thread_pool_active_count'' (node_sets ord c (n, s)) =
     map (\<lambda>(pool, pstats). ([c, Host s, pool], float64 (Active pstats)))
       (range_map (ThreadPool s) (poolOrder ord n))"
  "proj GaugeVecs ''thread_pool_threads_count'' (node_sets ord c (n, s)) =
     map (\<lambda>(pool, pstats). ([c, Host s, pool], float64 (Active pstats)))
       (range_map (ThreadPool s) (poolOrder ord n))"
  "proj GaugeVecs ''thread_pool_largest_count'' (node_sets ord c (n, s)) =
     map (\<lambda>(pool, pstats). ([c, Host s, pool], float64 (Active pstats)))
       (range_map (ThreadPool s) (poolOrder ord n))"
  "proj GaugeVecs ''thread_pool_queue_count'' (node_sets ord c (n, s)) =
     map (\<lambda>(pool, pstats). ([c, Host s, pool], float64 (Active pstats)))
       (range_map (ThreadPool s) (poolOrder ord n))"
  by (simp_all add: sets_defs proj_concat_map case_prod_unfold concat_map_single)

lemma proj_gc_sum_node:
  "proj CounterVecs ''jvm_gc_collection_seconds_sum'' (node_sets ord c (n, s)) =
     map (\<lambda>(collector, gcstats).
            ([c, Host s, collector], float64 (int64_quot (CollectionTime gcstats) 1000)))
       (range_map (Collectors (GC (JVM s))) (collectorOrder ord n))"
proof -
  show ?thesis
    by (simp add: sets_defs proj_concat_map case_prod_unfold concat_map_single)
qed

lemma proj_request_cache_node:
  "proj Gauges ''indices_request_cache_memory_size_bytes'' (node_sets ord c (n, s)) =
     [([c, Host s], float64 (MemorySize (QueryCache (Indices s))))]"
  "proj Gauges ''indices_query_cache_memory_size_bytes'' (node_sets ord c (n, s)) =
     [([c, Host s], float64 (MemorySize (QueryCache (Indices s))))]"
  "proj Counters ''indices_request_cache_evictions'' (node_sets ord c (n, s)) =
     [([c, Host s], float64 (Evictions (QueryCache (Indices s))))]"
  "proj Counters ''indices_query_cache_evictions'' (node_sets ord c (n, s)) =
     [([c, Host s], float64 (Evictions (QueryCache (Indices s))))]"
  by (simp_all add: sets_defs proj_concat_map case_prod_unfold)

lemma proj_health_sets_node_series:
  assumes "name \<notin> {''cluster_health_status'', ''cluster_health_timed_out'',
      ''cluster_number_of_nodes_total'', ''cluster_number_of_data_nodes_total''}"
  shows "proj fam name (health_sets cs) = []"
  using assms by (auto simp: health_sets_def)

lemma proj_cycle_node_series:
  assumes "nodeStats env = Unmarshalled a"
    and "name \<notin> {''cluster_health_status'', ''cluster_health_timed_out'',
      ''cluster_number_of_nodes_total'', ''cluster_number_of_data_nodes_total''}"
  shows "proj fam name (cycle_sets ord env) = proj fam name (populate_sets ord a)"
  using assms by (simp add: cycle_sets_def proj_health_sets_node_series split: fetched.splits)

lemma proj_populate_cong:
  assumes "\<And>n s. proj fam name (node_sets ord (NodeStatsResponse.ClusterName a) (n, s)) =
                   proj fam' name' (node_sets ord (NodeStatsResponse.ClusterName a) (n, s))"
  shows "proj fam name (populate_sets ord a) = proj fam' name' (populate_sets ord a)"
proof -
  have "proj fam name (node_sets ord (NodeStatsResponse.ClusterName a) ns) =
        proj fam' name' (node_sets ord (NodeStatsResponse.ClusterName a) ns)" for ns
    using assms by (cases ns) simp
  then show ?thesis by (simp add: populate_sets_def proj_concat_map)
qed

lemma proj_cycle_cong:
  assumes "\<And>c n s. proj fam name (node_sets ord c (n, s)) = proj fam' name' (node_sets ord c (n, s))"
    and "\<And>cs. proj fam name (health_sets cs) = proj fam' name' (health_sets cs)"
  shows "proj fam name (cycle_sets ord env) = proj fam' name' (cycle_sets ord env)"
  using assms(2) proj_populate_cong [of fam name ord _ fam' name', OF assms(1)]
  by (simp add: cycle_sets_def split: fetched.splits)

lemma labelled_value:
  assumes distinct: "hosts_distinct a ord"
    and node: "(n, s) \<in> set (range_map (Nodes a) (nodeOrder ord))"
    and entry: "(k, x) \<in> set (range_map (m s) (ko n))"
    and node_proj: "\<And>n' s'. proj fam name (node_sets ord (NodeStatsResponse.ClusterName a) (n', s')) =
        map (\<lambda>(k, x). ([NodeStatsResponse.ClusterName a, Host s', k], g x)) (range_map (m s') (ko n'))"
  shows "map_of (rev (proj fam name (populate_sets ord a)))
           [NodeStatsResponse.ClusterName a, Host s, k] = Some (g x)"
proof (rule last_write)
  let ?c = "NodeStatsResponse.ClusterName a"
  have "([?c, Host s, k], g x) \<in> set (proj fam name (node_sets ord ?c (n, s)))"
    using entry by (force simp: node_proj)
  with node show "([?c, Host s, k], g x) \<in> set (proj fam name (populate_sets ord a))"
    unfolding set_proj_populate by blast
next
  let ?c = "NodeStatsResponse.ClusterName a"
  fix v'
  assume "([?c, Host s, k], v') \<in> set (proj fam name (populate_sets ord a))"
  then obtain n' s' where node': "(n', s') \<in> set (range_map (Nodes a) (nodeOrder ord))"
    and "([?c, Host s, k], v') \<in> set (proj fam name (node_sets ord ?c (n', s')))"
    unfolding set_proj_populate by auto
  then obtain k' x' where entry': "(k', x') \<in> set (range_map (m s') (ko n'))"
    and eq: "[?c, Host s, k] = [?c, Host s', k']" and v': "v' = g x'"
    by (auto simp: node_proj)
  from eq have "Host s = Host s'" and k: "k' = k" by simp_all
  with same_host_same_node [OF distinct node node'] have same: "n' = n" "s' = s" by simp_all
  from entry entry' have "x' = x"
    unfolding same k by (simp add: mem_range_map)
  then show "v' = g x" by (simp add: v')
qed

lemma pool_gauges_in_catalog:
  "''thread_pool_active_count'' \<in> fst ` set (catalog_shape GaugeVecs)"
  "''thread_pool_threads_count'' \<in> fst ` set (catalog_shape GaugeVecs)"
  "''thread_pool_largest_count'' \<in> fst ` set (catalog_shape GaugeVecs)"
  "''thread_pool_queue_count'' \<in> fst ` set (catalog_shape GaugeVecs)"
  by (simp_all add: catalog_shape_def gaugeVecMetrics_def)

lemma series_value_registry_after:
  "name \<in> fst ` set (catalog_shape fam) \<Longrightarrow>
   (case registry_after ss fam name of None \<Rightarrow> None | Some cs \<Rightarrow> map_of cs lvs) =
     map_of (rev (proj fam name ss)) lvs"
  by (simp add: registry_after_def map_of_upsert_all split: option.splits)

lemma example_range: "range_map (Nodes example_stats) (nodeOrder example_order) =
    [(''n1'', example_node ''10.0.0.1'' 2500)]"
  by (simp add: example_stats_def example_order_def range_map_def)

lemma example_order_ok: "order_ok example_stats example_order"
  unfolding order_ok_def example_range
  by (simp add: example_stats_def example_order_def example_node_def zero_node_def visits_def)

lemma example_hosts_distinct: "hosts_distinct example_stats example_order"
  unfolding hosts_distinct_def example_range by simp

lemma float64_small: "\<bar>sint x\<bar> < 2 ^ 53 \<Longrightarrow> float64 x = real_of_int (sint x)"
  by (simp add: float64_def round_to_float64_def)

lemma request_cache_in_catalog:
  "''indices_request_cache_memory_size_bytes'' \<in> fst ` set (catalog_shape Gauges)"
  "''indices_query_cache_memory_size_bytes'' \<in> fst ` set (catalog_shape Gauges)"
  "''indices_request_cache_evictions'' \<in> fst ` set (catalog_shape Counters)"
  "''indices_query_cache_evictions'' \<in> fst ` set (catalog_shape Counters)"
  by (simp_all add: catalog_shape_def gaugeMetrics_def counterMetrics_def)

lemma exposed_cong:
  assumes ex: "\<forall>name lvs v. name \<noteq> ''up'' \<longrightarrow>
              exposed out name lvs v =
                (reports env \<and> (\<exists>fam. name \<in> fst ` set (catalog_shape fam) \<and>
                   map_of (rev (proj fam name ss)) lvs = Some v))"
    and "name \<noteq> ''up''" and "name' \<noteq> ''up''"
    and "\<And>fam. name \<in> fst ` set (catalog_shape fam) \<longleftrightarrow> fam = fam0"
    and "\<And>fam. name' \<in> fst ` set (catalog_shape fam) \<longleftrightarrow> fam = fam0"
    and "proj fam0 name ss = proj fam0 name' ss"
  shows "exposed out name lvs v = exposed out name' lvs v"
  using assms by simp

lemma request_cache_only_in:
  "''indices_request_cache_memory_size_bytes'' \<in> fst ` set (catalog_shape fam) \<longleftrightarrow> fam = Gauges"
  "''indices_query_cache_memory_size_bytes'' \<in> fst ` set (catalog_shape fam) \<longleftrightarrow> fam = Gauges"
  "''indices_request_cache_evictions'' \<in> fst ` set (catalog_shape fam) \<longleftrightarrow> fam = Counters"
  "''indices_query_cache_evictions'' \<in> fst ` set (catalog_shape fam) \<longleftrightarrow> fam = Counters"
  by (cases fam;
      simp add: catalog_shape_def gaugeMetrics_def counterMetrics_def gaugeVecMetrics_def
        counterVecMetrics_def)+

lemma gc_sum_only_in:
  "''jvm_gc_collection_seconds_sum'' \<in> fst ` set (catalog_shape fam) \<longleftrightarrow> fam = CounterVecs"
  by (cases fam;
      simp add: catalog_shape_def gaugeMetrics_def counterMetrics_def gaugeVecMetrics_def
        counterVecMetrics_def)

text \<open>
  C1, as the code has it: the value sent for \<open>jvm_gc_collection_seconds_sum\<close> is the
  conversion of the integer quotient \<open>CollectionTime / 1000\<close>, the collection time in
  whole seconds, and not the collection time divided by 1000.
\<close>

theorem gc_collection_seconds_whole:
  assumes "exporter_ok e"
    and "nodeStats env = Unmarshalled allStats"
    and "clusterHealth env = Unmarshalled clusterStat"
    and "order_ok allStats ord"
    and "hosts_distinct allStats ord"
    and "Nodes allStats n = Some stats"
    and "Collectors (GC (JVM stats)) collector = Some gcstats"
  shows "\<exists>out. Collect e ord env = Inr out \<and>
           (\<forall>v. exposed out ''jvm_gc_collection_seconds_sum''
                  [NodeStatsResponse.ClusterName allStats, Host stats, collector] v =
                (v = float64 (int64_quot (CollectionTime gcstats) 1000)))"
proof -
  from Collect_reads [OF assms(1), of ord env] obtain out
    where out: "Collect e ord env = Inr out"
      and ex: "\<forall>name lvs v. name \<noteq> ''up'' \<longrightarrow>
              exposed out name lvs v =
                (reports env \<and> (\<exists>fam. name \<in> fst ` set (catalog_shape fam) \<and>
                   map_of (rev (proj fam name (cycle_sets ord env))) lvs = Some v))"
    by blast
  have rep: "reports env" using assms(2,3) by (simp add: reports_def)
  have "map_of (rev (proj CounterVecs ''jvm_gc_collection_seconds_sum'' (populate_sets ord allStats)))
          [NodeStatsResponse.ClusterName allStats, Host stats, collector] =
        Some (float64 (int64_quot (CollectionTime gcstats) 1000))"
    by (rule labelled_value [where m = "\<lambda>s. Collectors (GC (JVM s))" and ko = "collectorOrder ord"
          and n = n, OF assms(5) order_ok_node(1) [OF assms(4,6)]
            visits_entry [OF order_ok_node(2) [OF assms(4,6)] assms(7)]])
      (simp add: proj_gc_sum_node)
  then have "exposed out ''jvm_gc_collection_seconds_sum''
                  [NodeStatsResponse.ClusterName allStats, Host stats, collector] v =
                (v = float64 (int64_quot (CollectionTime gcstats) 1000))" for v
    using ex rep by (auto simp: gc_sum_only_in proj_cycle_node_series [OF assms(2)])
  with out show ?thesis by blast
qed

lemma example_gc_seconds: "float64 (int64_quot 2500 1000) = 2"
  by (simp add: float64_def round_to_float64_def int64_quot_def)

theorem gc_collection_seconds_whole_witness:
  "exporter_ok example_exporter \<and>
   nodeStats example_upstream = Unmarshalled example_stats \<and>
   clusterHealth example_upstream = Unmarshalled example_health \<and>
   order_ok example_stats example_order \<and>
   hosts_distinct example_stats example_order \<and>
   Nodes example_stats ''n1'' = Some (example_node ''10.0.0.1'' 2500) \<and>
   Collectors (GC (JVM (example_node ''10.0.0.1'' 2500))) ''young'' =
     Some \<lparr>CollectionCount = 7, CollectionTime = 2500\<rparr> \<and>
   (\<exists>out. Collect example_exporter example_order example_upstream = Inr out \<and>
      (\<forall>v. exposed out ''jvm_gc_collection_seconds_sum'' [''es'', ''10.0.0.1'', ''young''] v =
           (v = 2)) \<and>
      \<not> exposed out ''jvm_gc_collection_seconds_sum'' [''es'', ''10.0.0.1'', ''young''] (2500 / 1000))"
proof -
  have env: "nodeStats example_upstream = Unmarshalled example_stats"
    "clusterHealth example_upstream = Unmarshalled example_health"
    by (simp_all add: example_upstream_def)
  have node: "Nodes example_stats ''n1'' = Some (example_node ''10.0.0.1'' 2500)"
    by (simp add: example_stats_def)
  have gc: "Collectors (GC (JVM (example_node ''10.0.0.1'' 2500))) ''young'' =
     Some \<lparr>CollectionCount = 7, CollectionTime = 2500\<rparr>"
    by (simp add: example_node_def)
  have host: "Host (example_node ''10.0.0.1'' 2500) = ''10.0.0.1''"
    and cluster: "NodeStatsResponse.ClusterName example_stats = ''es''"
    by (simp_all add: example_node_def example_stats_def)
  from gc_collection_seconds_whole
    [OF example_exporter_ok env example_order_ok example_hosts_distinct node gc]
  obtain out where out: "Collect example_exporter example_order example_upstream = Inr out"
    and val: "\<forall>v. exposed out ''jvm_gc_collection_seconds_sum'' [''es'', ''10.0.0.1'', ''young''] v =
           (v = 2)"
    by (auto simp: host cluster example_gc_seconds)
  from val have "\<not> exposed out ''jvm_gc_collection_seconds_sum'' [''es'', ''10.0.0.1'', ''young'']
      (2500 / 1000)"
    by simp
  with out val env node gc example_exporter_ok example_order_ok example_hosts_distinct
  show ?thesis by blast
qed

lemma reports_failed:
  "clusterHealth env \<in> {GetFailed, ReadFailed, UnmarshalFailed} \<Longrightarrow> \<not> reports env"
  by (auto simp: reports_def split: fetched.splits)

text \<open>
  C2, as the code has it: when the node-stats document is decoded and the cluster-health
  fetch fails, the cycle returns before the report. It sends the availability gauge with
  the value 1 and nothing else; the node-scoped series it has set stay in the vectors,
  unsent.
\<close>

theorem health_failure_sends_up_only:
  assumes "exporter_ok e"
    and "nodeStats env = Unmarshalled allStats"
    and "clusterHealth env \<in> {GetFailed, ReadFailed, UnmarshalFailed}"
  shows "\<exists>out. Collect e ord env = Inr out \<and>
           sent out = [Metric (BuildFQName namespace ''up'') [] 1] \<and>
           (\<forall>fam name lvs v. (fam, name, lvs, v) \<in> set (populate_sets ord allStats) \<longrightarrow>
              series_value (exporter out) fam name lvs \<noteq> None)"
proof -
  from Collect_reads [OF assms(1), of ord env] obtain out
    where out: "Collect e ord env = Inr out"
      and up: "up (exporter out) = up_after env"
      and sent: "sent out = (if reports env then report (exporter out) else []) @ [up_metric (exporter out)]"
      and reg: "\<forall>fam name. series (exporter out) fam name = registry_after (cycle_sets ord env) fam name"
    by blast
  have sets: "cycle_sets ord env = populate_sets ord allStats"
    using assms(2,3) by (auto simp: cycle_sets_def)
  have "sent out = [Metric (BuildFQName namespace ''up'') [] 1]"
    using reports_failed [OF assms(3)] assms(2) by (simp add: sent up_metric_def up up_after_def)
  moreover have "series_value (exporter out) fam name lvs \<noteq> None"
    if mem: "(fam, name, lvs, v) \<in> set (populate_sets ord allStats)" for fam name lvs v
  proof -
    from populate_sets_ok [of ord allStats] mem have "stmt_ok (fam, name, lvs, v)"
      by (simp add: list_all_iff)
    then have cat: "name \<in> fst ` set (catalog_shape fam)"
      by (force simp: stmt_ok_def dest: map_of_SomeD)
    have "(lvs, v) \<in> set (proj fam name (populate_sets ord allStats))"
      using mem by (force simp: proj_def)
    then have "lvs \<in> fst ` set (rev (proj fam name (populate_sets ord allStats)))"
      by force
    then have "map_of (rev (proj fam name (populate_sets ord allStats))) lvs \<noteq> None"
      by (simp add: map_of_eq_None_iff)
    then show ?thesis
      by (simp add: series_value_def reg sets series_value_registry_after [OF cat])
  qed
  ultimately show ?thesis using out by blast
qed

lemma example_sets_docs:
  "(Gauges, ''indices_docs'', [''es'', ''10.0.0.1''], float64 0) \<in>
     set (populate_sets example_order example_stats)"
  unfolding populate_sets_def example_range
  by (simp add: node_sets_def indices_sets_def example_node_def example_stats_def zero_node_def)

theorem health_failure_sends_up_only_witness:
  "exporter_ok example_exporter \<and>
   nodeStats \<lparr>nodeStats = Unmarshalled example_stats, clusterHealth = GetFailed\<rparr> =
     Unmarshalled example_stats \<and>
   clusterHealth \<lparr>nodeStats = Unmarshalled example_stats, clusterHealth = GetFailed\<rparr>
     \<in> {GetFailed, ReadFailed, UnmarshalFailed} \<and>
   (\<exists>out. Collect example_exporter example_order
             \<lparr>nodeStats = Unmarshalled example_stats, clusterHealth = GetFailed\<rparr> = Inr out \<and>
      sent out = [Metric ''elasticsearch_up'' [] 1] \<and>
      series_value (exporter out) Gauges ''indices_docs'' [''es'', ''10.0.0.1''] \<noteq> None)"
proof -
  let ?env = "\<lparr>nodeStats = Unmarshalled example_stats, clusterHealth = GetFailed\<rparr>"
  have env: "nodeStats ?env = Unmarshalled example_stats"
    "clusterHealth ?env \<in> {GetFailed, ReadFailed, UnmarshalFailed}"
    by simp_all
  from health_failure_sends_up_only [OF example_exporter_ok env, of example_order]
  obtain out where out: "Collect example_exporter example_order ?env = Inr out"
    and sent: "sent out = [Metric (BuildFQName namespace ''up'') [] 1]"
    and kept: "\<forall>fam name lvs v. (fam, name, lvs, v) \<in> set (populate_sets example_order example_stats) \<longrightarrow>
              series_value (exporter out) fam name lvs \<noteq> None"
    by blast
  from kept example_sets_docs
  have "series_value (exporter out) Gauges ''indices_docs'' [''es'', ''10.0.0.1''] \<noteq> None"
    by blast
  moreover from sent have "sent out = [Metric ''elasticsearch_up'' [] 1]"
    by (simp add: BuildFQName_def namespace_def)
  ultimately show ?thesis using out env example_exporter_ok by blast
qed

lemma family_children:
  assumes "exporter_ok e"
  shows "map (\<lambda>(name, vec). (fqName vec, children vec)) (family_of fam e) =
         map (\<lambda>(name, fq, k). (fq, the (series e fam name))) (catalog_shape fam)"
proof -
  have shape: "vec_shape (family_of fam e) = catalog_shape fam"
    by (rule exporter_ok_family [OF assms])
  have "map (\<lambda>(name, fq, k). (fq, the (series e fam name))) (vec_shape (family_of fam e)) =
        map (\<lambda>(name, vec). (fqName vec, the (series e fam name))) (family_of fam e)"
    by (simp add: vec_shape_def case_prod_unfold)
  also have "\<dots> = map (\<lambda>(name, vec). (fqName vec, children vec)) (family_of fam e)"
    by (rule map_cong [OF refl]) (auto simp: family_entry(2) [OF assms])
  finally show ?thesis by (simp add: shape)
qed

lemma Collect_vec_alt:
  "Collect_vec vec = (\<lambda>(fq, cs). map (\<lambda>(lvs, v). Metric fq lvs v) cs) (fqName vec, children vec)"
  by (simp add: Collect_vec_def)

lemma family_report:
  assumes "exporter_ok e"
  shows "concat (map (\<lambda>(name, vec). Collect_vec vec) (family_of fam e)) =
         concat (map (\<lambda>(name, fq, k). map (\<lambda>(lvs, v). Metric fq lvs v) (the (series e fam name)))
           (catalog_shape fam))"
proof -
  have A: "map (\<lambda>(name, vec). Collect_vec vec) (family_of fam e) =
        map (\<lambda>(fq, cs). map (\<lambda>(lvs, v). Metric fq lvs v) cs)
          (map (\<lambda>(name, vec). (fqName vec, children vec)) (family_of fam e))"
    by (simp add: Collect_vec_def case_prod_unfold comp_def)
  have B: "map (\<lambda>(fq, cs). map (\<lambda>(lvs, v). Metric fq lvs v) cs)
          (map (\<lambda>(name, fq, k). (fq, the (series e fam name))) (catalog_shape fam)) =
        map (\<lambda>(name, fq, k). map (\<lambda>(lvs, v). Metric fq lvs v) (the (series e fam name)))
           (catalog_shape fam)"
    by (simp add: case_prod_unfold comp_def)
  show ?thesis
    unfolding A family_children [OF assms] B ..
qed

lemma report_by_series:
  assumes "exporter_ok e"
  shows "report e =
     family_samples (series e) CounterVecs @ family_samples (series e) GaugeVecs @
     family_samples (series e) Counters @ family_samples (series e) Gauges"
  using family_report [OF assms, of CounterVecs] family_report [OF assms, of GaugeVecs]
    family_report [OF assms, of Counters] family_report [OF assms, of Gauges]
  by (simp add: report_def family_samples_def)

lemma report_determined:
  assumes "exporter_ok e" and "exporter_ok e'"
    and "\<forall>fam name. series e' fam name = series e fam name"
  shows "report e' = report e"
proof -
  from assms(3) have "series e' = series e" by (intro ext) simp
  then show ?thesis by (simp add: report_by_series assms(1,2))
qed

lemma mem_proj: "(lvs, v) \<in> set (proj fam name ss) \<longleftrightarrow> (fam, name, lvs, v) \<in> set ss"
  by (force simp: proj_def)

lemma series_value_set:
  assumes "name \<in> fst ` set (catalog_shape fam)"
  shows "(case registry_after ss fam name of None \<Rightarrow> None | Some cs \<Rightarrow> map_of cs lvs) \<noteq> None \<longleftrightarrow>
         (\<exists>v. (fam, name, lvs, v) \<in> set ss)"
proof -
  have "map_of (rev (proj fam name ss)) lvs \<noteq> None \<longleftrightarrow> lvs \<in> fst ` set (proj fam name ss)"
    by (simp add: map_of_eq_None_iff)
  also have "\<dots> \<longleftrightarrow> (\<exists>v. (fam, name, lvs, v) \<in> set ss)"
    by (force simp: mem_proj [symmetric])
  finally show ?thesis by (simp add: series_value_registry_after [OF assms])
qed

lemma stmt_in_catalog:
  assumes "list_all stmt_ok ss" and "(fam, name, lvs, v) \<in> set ss"
  shows "name \<in> fst ` set (catalog_shape fam)"
proof -
  from assms have "stmt_ok (fam, name, lvs, v)" by (simp add: list_all_iff)
  then show ?thesis by (force simp: stmt_ok_def dest: map_of_SomeD)
qed

lemma node_sets_labels:
  "list_all (\<lambda>(fam, name, lvs, v). take 2 lvs = [c, Host s]) (node_sets ord c (n, s))"
  by (simp add: sets_defs list_all_concat_map case_prod_unfold list.pred_True)

lemma populate_sets_labels:
  assumes "(fam, name, lvs, v) \<in> set (populate_sets ord a)"
  shows "\<exists>n s. n \<in> set (nodeOrder ord) \<and> Nodes a n = Some s \<and>
           take 2 lvs = [NodeStatsResponse.ClusterName a, Host s]"
proof -
  from assms obtain ns where ns: "ns \<in> set (range_map (Nodes a) (nodeOrder ord))"
    and mem: "(fam, name, lvs, v) \<in> set (node_sets ord (NodeStatsResponse.ClusterName a) ns)"
    by (auto simp: populate_sets_def)
  obtain n s where [simp]: "ns = (n, s)" by (cases ns)
  from node_sets_labels [of "NodeStatsResponse.ClusterName a" s ord n] mem
  have "take 2 lvs = [NodeStatsResponse.ClusterName a, Host s]"
    by (auto simp: list_all_iff)
  with ns show ?thesis by (auto simp: mem_range_map)
qed

lemma health_sets_labels:
  "(fam, name, lvs, v) \<in> set (health_sets cs) \<Longrightarrow> lvs = [ClusterName cs, ''unknown'']"
  by (auto simp: health_sets_def)

lemma cycle_sets_labels:
  assumes "(fam, name, lvs, v) \<in> set (cycle_sets ord env)"
  shows "\<exists>a. nodeStats env = Unmarshalled a \<and>
           ((\<exists>n s. n \<in> set (nodeOrder ord) \<and> Nodes a n = Some s \<and>
               take 2 lvs = [NodeStatsResponse.ClusterName a, Host s]) \<or>
            (\<exists>cs. clusterHealth env = Unmarshalled cs \<and> lvs = [ClusterName cs, ''unknown'']))"
proof (cases "nodeStats env")
  case (Unmarshalled a)
  show ?thesis
  proof (cases "(fam, name, lvs, v) \<in> set (populate_sets ord a)")
    case True
    from populate_sets_labels [OF True] Unmarshalled show ?thesis by blast
  next
    case False
    with assms Unmarshalled obtain cs where cs: "clusterHealth env = Unmarshalled cs"
      and "(fam, name, lvs, v) \<in> set (health_sets cs)"
      by (cases "clusterHealth env") (auto simp: cycle_sets_def)
    with health_sets_labels [of fam name lvs v cs] Unmarshalled show ?thesis by blast
  qed
qed (use assms in \<open>simp_all add: cycle_sets_def\<close>)

lemma stale_exporter_cycle:
  assumes "Collect example_exporter (example_order\<lparr>nodeOrder := [''n9'']\<rparr>)
             \<lparr>nodeStats = Unmarshalled stale_stats, clusterHealth = Unmarshalled example_health\<rparr> =
           Inr out"
  shows "stale_exporter = exporter out"
  using assms by (simp add: stale_exporter_def)

lemma stale_exporter_ok: "exporter_ok stale_exporter"
proof -
  from Collect_reads [OF example_exporter_ok] obtain out
    where out: "Collect example_exporter (example_order\<lparr>nodeOrder := [''n9'']\<rparr>)
             \<lparr>nodeStats = Unmarshalled stale_stats, clusterHealth = Unmarshalled example_health\<rparr> =
           Inr out"
      and ok: "exporter_ok (exporter out)"
    by blast
  from ok stale_exporter_cycle [OF out] show ?thesis by simp
qed

lemma stale_sets_docs:
  "(Gauges, ''indices_docs'', [''es'', ''10.0.0.9''], float64 0) \<in>
     set (cycle_sets (example_order\<lparr>nodeOrder := [''n9'']\<rparr>)
       \<lparr>nodeStats = Unmarshalled stale_stats, clusterHealth = Unmarshalled example_health\<rparr>)"
  by (simp add: cycle_sets_def populate_sets_def range_map_def stale_stats_def example_order_def
      node_sets_def indices_sets_def example_node_def zero_node_def)

lemma example_cycle_docs:
  "(Gauges, ''indices_docs'', [''es'', ''10.0.0.1''], float64 0) \<in>
     set (cycle_sets example_order example_upstream)"
  using example_sets_docs by (simp add: cycle_sets_def example_upstream_def)

lemma example_hosts:
  "Nodes example_stats n = Some stats \<Longrightarrow> Host stats = ''10.0.0.1''"
  by (auto simp: example_stats_def example_node_def split: if_splits)

lemma unambiguousD:
  "unambiguous ss \<Longrightarrow> (fam, name, lvs, v) \<in> set ss \<Longrightarrow> (fam, name, lvs, v') \<in> set ss \<Longrightarrow> v = v'"
  unfolding unambiguous_def by blast

lemma distinct_keys_unambiguous:
  assumes "distinct (map (\<lambda>(fam, name, lvs, v). (fam, name, lvs)) ss)"
  shows "unambiguous ss"
proof -
  let ?key = "\<lambda>(fam, name, lvs, v). (fam, name, lvs)"
  from assms have inj: "inj_on ?key (set ss)" by (simp add: distinct_map)
  show ?thesis
    unfolding unambiguous_def
  proof (intro allI impI)
    fix fam name lvs and v v' :: real
    assume "(fam, name, lvs, v) \<in> set ss \<and> (fam, name, lvs, v') \<in> set ss"
    then have "(fam, name, lvs, v) = (fam, name, lvs, v')"
      by (intro inj_onD [OF inj]) simp_all
    then show "v = v'" by simp
  qed
qed

lemma unambiguous_append:
  assumes "unambiguous A" and "unambiguous B"
    and "list_all (\<lambda>(fam, name, lvs, v). (fam, name) \<in> N) A"
    and "list_all (\<lambda>(fam, name, lvs, v). (fam, name) \<notin> N) B"
  shows "unambiguous (A @ B)"
  unfolding unambiguous_def
proof (intro allI impI)
  fix fam name lvs and v v' :: real
  assume mem: "(fam, name, lvs, v) \<in> set (A @ B) \<and> (fam, name, lvs, v') \<in> set (A @ B)"
  show "v = v'"
  proof (cases "(fam, name) \<in> N")
    case True
    with assms(4) mem have "(fam, name, lvs, v) \<in> set A" "(fam, name, lvs, v') \<in> set A"
      by (auto simp: list_all_iff)
    then show ?thesis by (rule unambiguousD [OF assms(1)])
  next
    case False
    with assms(3) mem have "(fam, name, lvs, v) \<in> set B" "(fam, name, lvs, v') \<in> set B"
      by (auto simp: list_all_iff)
    then show ?thesis by (rule unambiguousD [OF assms(2)])
  qed
qed

lemma unambiguous_gc: "unambiguous (gc_sets c h (range_map m ks))"
  by (auto simp: unambiguous_def gc_sets_def mem_range_map)

lemma unambiguous_breaker: "unambiguous (breaker_sets c h (range_map m ks))"
  by (auto simp: unambiguous_def breaker_sets_def mem_range_map)

lemma unambiguous_pool: "unambiguous (pool_sets c h (range_map m ks))"
  by (auto simp: unambiguous_def pool_sets_def mem_range_map)

lemma unambiguous_jvm_mem: "unambiguous (jvm_mem_sets c h m)"
  by (rule distinct_keys_unambiguous) (simp add: jvm_mem_sets_def)

lemma unambiguous_indices: "unambiguous (indices_sets c h i)"
  by (rule distinct_keys_unambiguous) (simp add: indices_sets_def)

lemma unambiguous_transport: "unambiguous (transport_sets c h t)"
  by (rule distinct_keys_unambiguous) (simp add: transport_sets_def)

lemma unambiguous_process: "unambiguous (process_sets c h p)"
  by (rule distinct_keys_unambiguous) (simp add: process_sets_def)

lemma unambiguous_append_names:
  assumes "unambiguous A" and "unambiguous B"
    and "list_all (\<lambda>(fam, name, lvs, v).
           (fam, name) \<notin> set (map (\<lambda>(fam, name, lvs, v). (fam, name)) A)) B"
  shows "unambiguous (A @ B)"
proof (rule unambiguous_append [OF assms(1,2), where N = "set (map (\<lambda>(fam, name, lvs, v). (fam, name)) A)"])
  show "list_all (\<lambda>(fam, name, lvs, v). (fam, name) \<in> set (map (\<lambda>(fam, name, lvs, v). (fam, name)) A)) A"
    by (force simp: list_all_iff)
qed (rule assms(3))

lemma unambiguous_fixed:
  "unambiguous (jvm_mem_sets c h m @ indices_sets c h i @ transport_sets c h t @ process_sets c h p)"
proof -
  have tp: "unambiguous (transport_sets c h t @ process_sets c h p)"
    by (rule unambiguous_append_names [OF unambiguous_transport unambiguous_process])
      (simp add: transport_sets_def process_sets_def)
  have itp: "unambiguous (indices_sets c h i @ transport_sets c h t @ process_sets c h p)"
    by (rule unambiguous_append_names [OF unambiguous_indices tp])
      (simp add: indices_sets_def transport_sets_def process_sets_def)
  show ?thesis
    by (rule unambiguous_append_names [OF unambiguous_jvm_mem itp])
      (simp add: jvm_mem_sets_def indices_sets_def transport_sets_def process_sets_def)
qed

lemma unambiguous_node: "unambiguous (node_sets ord c (n, s))"
proof -
  let ?F = "jvm_mem_sets c (Host s) (Mem (JVM s)) @ indices_sets c (Host s) (Indices s) @
            transport_sets c (Host s) (Transport s) @ process_sets c (Host s) (Process s)"
  let ?P = "pool_sets c (Host s) (range_map (ThreadPool s) (poolOrder ord n))"
  let ?B = "breaker_sets c (Host s) (range_map (Breakers s) (breakerOrder ord n))"
  let ?G = "gc_sets c (Host s) (range_map (Collectors (GC (JVM s))) (collectorOrder ord n))"
  have pf: "unambiguous (?P @ ?F)"
    by (rule unambiguous_append [OF unambiguous_pool unambiguous_fixed, where
          N = "{(CounterVecs, ''thread_pool_completed_count''),
                (CounterVecs, ''thread_pool_rejected_count''),
                (GaugeVecs, ''thread_pool_active_count''),
                (GaugeVecs, ''thread_pool_threads_count''),
                (GaugeVecs, ''thread_pool_largest_count''),
                (GaugeVecs, ''thread_pool_queue_count'')}"])
      (simp_all add: pool_sets_def jvm_mem_sets_def indices_sets_def transport_sets_def
        process_sets_def list_all_concat_map case_prod_unfold list.pred_True)
  have bpf: "unambiguous (?B @ ?P @ ?F)"
    by (rule unambiguous_append [OF unambiguous_breaker pf, where
          N = "{(GaugeVecs, ''breakers_estimated_size_bytes''),
                (GaugeVecs, ''breakers_limit_size_bytes'')}"])
      (simp_all add: breaker_sets_def pool_sets_def jvm_mem_sets_def indices_sets_def
        transport_sets_def process_sets_def list_all_concat_map case_prod_unfold list.pred_True)
  have "unambiguous (?G @ ?B @ ?P @ ?F)"
    by (rule unambiguous_append [OF unambiguous_gc bpf, where
          N = "{(CounterVecs, ''jvm_gc_collection_seconds_count''),
                (CounterVecs, ''jvm_gc_collection_seconds_sum'')}"])
      (simp_all add: gc_sets_def breaker_sets_def pool_sets_def jvm_mem_sets_def indices_sets_def
        transport_sets_def process_sets_def list_all_concat_map case_prod_unfold list.pred_True)
  then show ?thesis by (simp add: node_sets_def)
qed

lemma unambiguous_populate:
  assumes "hosts_distinct a ord"
  shows "unambiguous (populate_sets ord a)"
  unfolding unambiguous_def
proof (intro allI impI)
  let ?c = "NodeStatsResponse.ClusterName a"
  fix fam name lvs and v v' :: real
  assume "(fam, name, lvs, v) \<in> set (populate_sets ord a) \<and> (fam, name, lvs, v') \<in> set (populate_sets ord a)"
  then obtain ns ns' where ns: "ns \<in> set (range_map (Nodes a) (nodeOrder ord))"
    and mem: "(fam, name, lvs, v) \<in> set (node_sets ord ?c ns)"
    and ns': "ns' \<in> set (range_map (Nodes a) (nodeOrder ord))"
    and mem': "(fam, name, lvs, v') \<in> set (node_sets ord ?c ns')"
    by (auto simp: populate_sets_def)
  obtain n s n' s' where [simp]: "ns = (n, s)" "ns' = (n', s')" by (cases ns, cases ns')
  from node_sets_labels [of ?c s ord n] mem have "take 2 lvs = [?c, Host s]"
    by (auto simp: list_all_iff)
  moreover from node_sets_labels [of ?c s' ord n'] mem' have "take 2 lvs = [?c, Host s']"
    by (auto simp: list_all_iff)
  ultimately have "Host s = Host s'" by simp
  with same_host_same_node [OF assms, of n s n' s'] ns ns' have "n' = n" "s' = s" by simp_all
  with mem mem' show "v = v'"
    using unambiguousD [OF unambiguous_node] by simp
qed

lemma unambiguous_health: "unambiguous (health_sets cs)"
  by (rule distinct_keys_unambiguous) (simp add: health_sets_def)

lemma node_sets_not_health:
  "list_all (\<lambda>(fam, name, lvs, v).
      (fam, name) \<notin> {(Gauges, ''cluster_health_status''), (Gauges, ''cluster_health_timed_out''),
        (Gauges, ''cluster_number_of_nodes_total''), (Gauges, ''cluster_number_of_data_nodes_total'')})
     (node_sets ord c ns)"
  by (cases ns) (simp add: sets_defs list_all_concat_map case_prod_unfold list.pred_True)

lemma unambiguous_cycle:
  assumes "nodeStats env = Unmarshalled a" and "hosts_distinct a ord"
  shows "unambiguous (cycle_sets ord env)"
proof -
  let ?H = "{(Gauges, ''cluster_health_status''), (Gauges, ''cluster_health_timed_out''),
        (Gauges, ''cluster_number_of_nodes_total''), (Gauges, ''cluster_number_of_data_nodes_total'')}"
  have pop: "list_all (\<lambda>(fam, name, lvs, v). (fam, name) \<in> - ?H) (populate_sets ord a)"
    using node_sets_not_health
    by (simp add: populate_sets_def list_all_concat_map list.pred_True del: insert_iff)
  have "unambiguous (populate_sets ord a @ health_sets cs)" for cs
    by (rule unambiguous_append [OF unambiguous_populate [OF assms(2)] unambiguous_health pop])
      (simp add: health_sets_def)
  moreover have "unambiguous (populate_sets ord a @ [])"
    using unambiguous_populate [OF assms(2)] by simp
  ultimately show ?thesis
    using assms(1) by (simp add: cycle_sets_def split: fetched.splits)
qed

lemma set_range_map: "visits m ks \<Longrightarrow> set (range_map m ks) = {(k, v). m k = Some v}"
  by (auto simp: visits_def mem_range_map)

lemma set_concat_map_cong: "set xs = set ys \<Longrightarrow> set (concat (map f xs)) = set (concat (map f ys))"
  by simp

lemma set_loop_sets:
  "set xs = set xs' \<Longrightarrow> set (gc_sets c h xs) = set (gc_sets c h xs')"
  "set ys = set ys' \<Longrightarrow> set (breaker_sets c h ys) = set (breaker_sets c h ys')"
  "set zs = set zs' \<Longrightarrow> set (pool_sets c h zs) = set (pool_sets c h zs')"
  unfolding gc_sets_def breaker_sets_def pool_sets_def
  by (rule set_concat_map_cong, assumption)+

lemma set_range_map_eq: "visits m ks \<Longrightarrow> visits m ks' \<Longrightarrow> set (range_map m ks) = set (range_map m ks')"
  by (simp add: set_range_map)

lemma set_node_sets:
  assumes "visits (Collectors (GC (JVM s))) (collectorOrder ord n)"
    and "visits (Breakers s) (breakerOrder ord n)"
    and "visits (ThreadPool s) (poolOrder ord n)"
    and "visits (Collectors (GC (JVM s))) (collectorOrder ord' n)"
    and "visits (Breakers s) (breakerOrder ord' n)"
    and "visits (ThreadPool s) (poolOrder ord' n)"
  shows "set (node_sets ord c (n, s)) = set (node_sets ord' c (n, s))"
  using set_loop_sets(1) [OF set_range_map_eq [OF assms(1,4)], of c "Host s"]
    set_loop_sets(2) [OF set_range_map_eq [OF assms(2,5)], of c "Host s"]
    set_loop_sets(3) [OF set_range_map_eq [OF assms(3,6)], of c "Host s"]
  by (simp add: node_sets_def)

lemma set_populate_sets:
  assumes "order_ok a ord" and "order_ok a ord'"
  shows "set (populate_sets ord a) = set (populate_sets ord' a)"
proof -
  let ?c = "NodeStatsResponse.ClusterName a"
  have nodes: "set (range_map (Nodes a) (nodeOrder ord)) = set (range_map (Nodes a) (nodeOrder ord'))"
    using assms by (simp add: order_ok_def set_range_map)
  have "set (node_sets ord ?c ns) = set (node_sets ord' ?c ns)"
    if "ns \<in> set (range_map (Nodes a) (nodeOrder ord))" for ns
  proof -
    obtain n s where ns: "ns = (n, s)" by (cases ns)
    with that have node: "Nodes a n = Some s" by (simp add: mem_range_map)
    show ?thesis
      unfolding ns
      by (rule set_node_sets [OF order_ok_node(2-4) [OF assms(1) node]
            order_ok_node(2-4) [OF assms(2) node]])
  qed
  then show ?thesis
    by (simp add: populate_sets_def nodes)
qed

lemma set_cycle_sets:
  assumes "nodeStats env = Unmarshalled a" and "order_ok a ord" and "order_ok a ord'"
  shows "set (cycle_sets ord env) = set (cycle_sets ord' env)"
  using assms(1) set_populate_sets [OF assms(2,3)]
  by (simp add: cycle_sets_def split: fetched.splits)

lemma last_writes_same:
  assumes "unambiguous ss" and "set ss' = set ss"
  shows "map_of (rev (proj fam name ss')) = map_of (rev (proj fam name ss))"
proof
  fix lvs
  show "map_of (rev (proj fam name ss')) lvs = map_of (rev (proj fam name ss)) lvs"
  proof (cases "\<exists>v. (fam, name, lvs, v) \<in> set ss")
    case True
    then obtain v where v: "(fam, name, lvs, v) \<in> set ss" ..
    have uniq: "v' = v" if "(fam, name, lvs, v') \<in> set ss" for v'
      by (rule unambiguousD [OF assms(1) that v])
    have "map_of (rev (proj fam name ss)) lvs = Some v"
    proof (rule last_write)
      show "(lvs, v) \<in> set (proj fam name ss)" using v by (simp add: mem_proj)
      show "v' = v" if "(lvs, v') \<in> set (proj fam name ss)" for v'
        using that by (intro uniq) (simp add: mem_proj)
    qed
    moreover have "map_of (rev (proj fam name ss')) lvs = Some v"
    proof (rule last_write)
      show "(lvs, v) \<in> set (proj fam name ss')" using v by (simp add: mem_proj assms(2))
      show "v' = v" if "(lvs, v') \<in> set (proj fam name ss')" for v'
        using that by (intro uniq) (simp add: mem_proj assms(2))
    qed
    ultimately show ?thesis by simp
  next
    case False
    then have "lvs \<notin> fst ` set (proj fam name ss)"
      by (auto simp: mem_proj)
    moreover from False have "lvs \<notin> fst ` set (proj fam name ss')"
      by (auto simp: mem_proj assms(2))
    ultimately have "map_of (rev (proj fam name ss)) lvs = None"
      and "map_of (rev (proj fam name ss')) lvs = None"
      by (simp_all add: map_of_eq_None_iff)
    then show ?thesis by simp
  qed
qed

lemma mset_upsert_all:
  assumes "map_of (rev kvs') = map_of (rev kvs)"
  shows "mset (upsert_all kvs' []) = mset (upsert_all kvs [])"
proof -
  have d: "distinct (upsert_all xs [])" for xs :: "(string list \<times> real) list"
    using distinct_upsert_all [of "[]" xs] by (simp add: distinct_map)
  have "set (upsert_all kvs' []) = set (upsert_all kvs [])"
    using assms by (auto simp: mem_upsert_all)
  with d [of kvs] d [of kvs'] show ?thesis
    by (simp add: set_eq_iff_mset_eq_distinct)
qed

lemma mset_family_samples:
  assumes "\<And>name. name \<in> fst ` set (catalog_shape fam) \<Longrightarrow>
             mset (the (reg' fam name)) = mset (the (reg fam name))"
  shows "mset (family_samples reg' fam) = mset (family_samples reg fam)"
proof -
  have "mset (map (\<lambda>(lvs, v). Metric fq lvs v) (the (reg' fam name))) =
        mset (map (\<lambda>(lvs, v). Metric fq lvs v) (the (reg fam name)))"
    if "(name, fq, k) \<in> set (catalog_shape fam)" for name fq k
  proof -
    from that have "name \<in> fst ` set (catalog_shape fam)" by force
    from assms [OF this] show ?thesis by simp
  qed
  then have "map (\<lambda>x. mset (case x of (name, fq, k) \<Rightarrow>
                 map (\<lambda>(lvs, v). Metric fq lvs v) (the (reg' fam name)))) (catalog_shape fam) =
             map (\<lambda>x. mset (case x of (name, fq, k) \<Rightarrow>
                 map (\<lambda>(lvs, v). Metric fq lvs v) (the (reg fam name)))) (catalog_shape fam)"
    by (intro map_cong [OF refl]) auto
  then have "sum_list (map (\<lambda>x. mset (case x of (name, fq, k) \<Rightarrow>
                 map (\<lambda>(lvs, v). Metric fq lvs v) (the (reg' fam name)))) (catalog_shape fam)) =
             sum_list (map (\<lambda>x. mset (case x of (name, fq, k) \<Rightarrow>
                 map (\<lambda>(lvs, v). Metric fq lvs v) (the (reg fam name)))) (catalog_shape fam))"
    by (rule arg_cong)
  then show ?thesis
    by (simp add: family_samples_def mset_concat comp_def)
qed

lemma mset_report:
  assumes "exporter_ok e" and "exporter_ok e'"
    and "\<And>fam name. name \<in> fst ` set (catalog_shape fam) \<Longrightarrow>
           mset (the (series e' fam name)) = mset (the (series e fam name))"
  shows "mset (report e') = mset (report e)"
  using mset_family_samples [of _ "series e'" "series e", OF assms(3)]
  by (simp add: report_by_series assms(1,2))

text \<open>
  C7, as amended: when two cycles in succession fetch the same two documents, the second
  sends the same samples as the first (the same multiset: the exposition sorts them),
  provided that no two nodes of the node-stats document share a host, or that the loops
  of both cycles visit the keys of the maps in the same order.
\<close>

theorem repeated_cycle_same_samples:
  assumes "exporter_ok e"
    and "nodeStats env = Unmarshalled allStats"
    and "order_ok allStats ord" and "order_ok allStats ord'"
    and "hosts_distinct allStats ord \<or> ord' = ord"
  shows "\<exists>out out'. Collect e ord env = Inr out \<and> Collect (exporter out) ord' env = Inr out' \<and>
           mset (sent out') = mset (sent out)"
proof -
  from Collect_reads [OF assms(1), of ord env] obtain out
    where out: "Collect e ord env = Inr out" and ok: "exporter_ok (exporter out)"
      and up: "up (exporter out) = up_after env"
      and sent: "sent out = (if reports env then report (exporter out) else []) @ [up_metric (exporter out)]"
      and reg: "\<forall>fam name. series (exporter out) fam name = registry_after (cycle_sets ord env) fam name"
    by blast
  from Collect_reads [OF ok, of ord' env] obtain out'
    where out': "Collect (exporter out) ord' env = Inr out'" and ok': "exporter_ok (exporter out')"
      and up': "up (exporter out') = up_after env"
      and sent': "sent out' = (if reports env then report (exporter out') else []) @ [up_metric (exporter out')]"
      and reg': "\<forall>fam name. series (exporter out') fam name = registry_after (cycle_sets ord' env) fam name"
    by blast
  have maps: "map_of (rev (proj fam name (cycle_sets ord' env))) =
              map_of (rev (proj fam name (cycle_sets ord env)))" for fam name
  proof (cases "ord' = ord")
    case True
    then show ?thesis by simp
  next
    case False
    with assms(5) have "hosts_distinct allStats ord" by simp
    from last_writes_same [OF unambiguous_cycle [OF assms(2) this]
        set_cycle_sets [OF assms(2) assms(4) assms(3)]]
    show ?thesis .
  qed
  have "mset (the (series (exporter out') fam name)) = mset (the (series (exporter out) fam name))"
    if "name \<in> fst ` set (catalog_shape fam)" for fam name
    using that by (simp add: reg reg' registry_after_def mset_upsert_all [OF maps])
  then have "mset (report (exporter out')) = mset (report (exporter out))"
    by (rule mset_report [OF ok ok'])
  then have "mset (sent out') = mset (sent out)"
    by (simp add: sent sent' up up' up_metric_def)
  with out out' show ?thesis by blast
qed

lemma two_nodes_order_ok:
  "order_ok (two_nodes h1 h2) forward_order" "order_ok (two_nodes h1 h2) backward_order"
  by (simp_all add: order_ok_def two_nodes_def forward_order_def backward_order_def
      example_order_def range_map_def visits_def example_node_def zero_node_def)
    auto

lemma two_nodes_hosts_distinct: "h1 \<noteq> h2 \<Longrightarrow> hosts_distinct (two_nodes h1 h2) forward_order"
  by (simp add: hosts_distinct_def two_nodes_def forward_order_def example_order_def range_map_def
      example_node_def)

theorem repeated_cycle_same_samples_witness:
  "exporter_ok example_exporter \<and>
   nodeStats (two_nodes_upstream ''10.0.0.1'' ''10.0.0.2'') =
     Unmarshalled (two_nodes ''10.0.0.1'' ''10.0.0.2'') \<and>
   order_ok (two_nodes ''10.0.0.1'' ''10.0.0.2'') forward_order \<and>
   order_ok (two_nodes ''10.0.0.1'' ''10.0.0.2'') backward_order \<and>
   hosts_distinct (two_nodes ''10.0.0.1'' ''10.0.0.2'') forward_order \<and>
   (\<exists>out out'.
      Collect example_exporter forward_order (two_nodes_upstream ''10.0.0.1'' ''10.0.0.2'') = Inr out \<and>
      Collect (exporter out) backward_order (two_nodes_upstream ''10.0.0.1'' ''10.0.0.2'') = Inr out' \<and>
      mset (sent out') = mset (sent out))"
proof -
  have env: "nodeStats (two_nodes_upstream ''10.0.0.1'' ''10.0.0.2'') =
     Unmarshalled (two_nodes ''10.0.0.1'' ''10.0.0.2'')"
    by (simp add: two_nodes_upstream_def)
  have hosts: "hosts_distinct (two_nodes ''10.0.0.1'' ''10.0.0.2'') forward_order"
    by (rule two_nodes_hosts_distinct) simp
  from repeated_cycle_same_samples [OF example_exporter_ok env two_nodes_order_ok disjI1 [OF hosts]]
    env two_nodes_order_ok [of "''10.0.0.1''" "''10.0.0.2''"] hosts example_exporter_ok
  show ?thesis by blast
qed

lemma twin_gc_sums:
  "proj CounterVecs ''jvm_gc_collection_seconds_sum''
     (cycle_sets forward_order (two_nodes_upstream ''10.0.0.1'' ''10.0.0.1'')) =
     [([''es'', ''10.0.0.1'', ''young''], 1), ([''es'', ''10.0.0.1'', ''young''], 2)]"
  "proj CounterVecs ''jvm_gc_collection_seconds_sum''
     (cycle_sets backward_order (two_nodes_upstream ''10.0.0.1'' ''10.0.0.1'')) =
     [([''es'', ''10.0.0.1'', ''young''], 2), ([''es'', ''10.0.0.1'', ''young''], 1)]"
  by (simp_all add: cycle_sets_def two_nodes_upstream_def populate_sets_def two_nodes_def
      forward_order_def backward_order_def example_order_def range_map_def proj_gc_sum_node
      example_node_def health_sets_def float64_def round_to_float64_def int64_quot_def)

lemma twin_reports: "reports (two_nodes_upstream h1 h2)"
  by (simp add: reports_def two_nodes_upstream_def)

text \<open>
  C7 as stated fails: two nodes on one host are set under the same labels, the node
  visited last wins, and two cycles on the same documents that visit the nodes in
  different orders send different values.
\<close>

theorem repeated_cycle_counterexample:
  "order_ok (two_nodes ''10.0.0.1'' ''10.0.0.1'') forward_order \<and>
   order_ok (two_nodes ''10.0.0.1'' ''10.0.0.1'') backward_order \<and>
   (\<exists>out out'.
      Collect example_exporter forward_order (two_nodes_upstream ''10.0.0.1'' ''10.0.0.1'') = Inr out \<and>
      Collect (exporter out) backward_order (two_nodes_upstream ''10.0.0.1'' ''10.0.0.1'') = Inr out' \<and>
      exposed out ''jvm_gc_collection_seconds_sum'' [''es'', ''10.0.0.1'', ''young''] 2 \<and>
      exposed out' ''jvm_gc_collection_seconds_sum'' [''es'', ''10.0.0.1'', ''young''] 1 \<and>
      \<not> exposed out' ''jvm_gc_collection_seconds_sum'' [''es'', ''10.0.0.1'', ''young''] 2 \<and>
      mset (sent out') \<noteq> mset (sent out))"
proof -
  let ?env = "two_nodes_upstream ''10.0.0.1'' ''10.0.0.1''"
  from Collect_reads [OF example_exporter_ok, of forward_order ?env] obtain out
    where out: "Collect example_exporter forward_order ?env = Inr out"
      and ok: "exporter_ok (exporter out)"
      and ex: "\<forall>name lvs v. name \<noteq> ''up'' \<longrightarrow>
              exposed out name lvs v =
                (reports ?env \<and> (\<exists>fam. name \<in> fst ` set (catalog_shape fam) \<and>
                   map_of (rev (proj fam name (cycle_sets forward_order ?env))) lvs = Some v))"
    by blast
  from Collect_reads [OF ok, of backward_order ?env] obtain out'
    where out': "Collect (exporter out) backward_order ?env = Inr out'"
      and ex': "\<forall>name lvs v. name \<noteq> ''up'' \<longrightarrow>
              exposed out' name lvs v =
                (reports ?env \<and> (\<exists>fam. name \<in> fst ` set (catalog_shape fam) \<and>
                   map_of (rev (proj fam name (cycle_sets backward_order ?env))) lvs = Some v))"
    by blast
  have first: "exposed out ''jvm_gc_collection_seconds_sum'' [''es'', ''10.0.0.1'', ''young''] v = (v = 2)"
    for v
    using ex by (auto simp: gc_sum_only_in twin_reports twin_gc_sums)
  have second: "exposed out' ''jvm_gc_collection_seconds_sum'' [''es'', ''10.0.0.1'', ''young''] v = (v = 1)"
    for v
    using ex' by (auto simp: gc_sum_only_in twin_reports twin_gc_sums)
  have "set (sent out') \<noteq> set (sent out)"
    using first [of 2] second [of 2] by (auto simp: exposed_def)
  then have "mset (sent out') \<noteq> mset (sent out)"
    by (metis set_mset_mset)
  with out out' first [of 2] second [of 1] second [of 2] two_nodes_order_ok show ?thesis
    by auto
qed

lemma map_of_rev_mem: "map_of (rev kvs) k = Some v \<Longrightarrow> (k, v) \<in> set kvs"
  by (auto dest: map_of_SomeD)

lemma map_of_rev_defined: "(k, v) \<in> set kvs \<Longrightarrow> map_of (rev kvs) k \<noteq> None"
proof -
  assume "(k, v) \<in> set kvs"
  then have "k \<in> fst ` set (rev kvs)" by force
  then show ?thesis by (simp add: map_of_eq_None_iff)
qed

lemma cycle_sets_undecoded:
  "\<forall>a. nodeStats env \<noteq> Unmarshalled a \<Longrightarrow> cycle_sets ord env = []"
  by (cases "nodeStats env") (simp_all add: cycle_sets_def)

lemma pool_gauge_names:
  assumes "name \<in> {''thread_pool_active_count'', ''thread_pool_threads_count'',
                     ''thread_pool_largest_count'', ''thread_pool_queue_count''}"
  shows "name \<in> fst ` set (catalog_shape GaugeVecs)"
    and "name \<notin> {''cluster_health_status'', ''cluster_health_timed_out'',
      ''cluster_number_of_nodes_total'', ''cluster_number_of_data_nodes_total''}"
    and "proj GaugeVecs name (node_sets ord c (n, s)) =
           map (\<lambda>(pool, pstats). ([c, Host s, pool], float64 (Active pstats)))
             (range_map (ThreadPool s) (poolOrder ord n))"
  using assms pool_gauges_in_catalog proj_pool_gauges_node [of ord c n s]
  by (elim insertE emptyE; simp)+

lemma labelled_entries:
  assumes node_proj: "\<And>n s. proj fam name (node_sets ord (NodeStatsResponse.ClusterName a) (n, s)) =
        map (\<lambda>(k, x). ([NodeStatsResponse.ClusterName a, Host s, k], g x)) (range_map (m s) (ko n))"
  shows "(lvs, v) \<in> set (proj fam name (populate_sets ord a)) \<longleftrightarrow>
           (\<exists>n s k x. n \<in> set (nodeOrder ord) \<and> Nodes a n = Some s \<and>
              k \<in> set (ko n) \<and> m s k = Some x \<and>
              lvs = [NodeStatsResponse.ClusterName a, Host s, k] \<and> v = g x)"
    (is "?L \<longleftrightarrow> ?R")
proof
  assume ?L
  then obtain ns where ns: "ns \<in> set (range_map (Nodes a) (nodeOrder ord))"
    and mem: "(lvs, v) \<in> set (proj fam name (node_sets ord (NodeStatsResponse.ClusterName a) ns))"
    unfolding set_proj_populate by blast
  obtain n s where [simp]: "ns = (n, s)" by (cases ns)
  from mem obtain k x where "(k, x) \<in> set (range_map (m s) (ko n))"
    and "lvs = [NodeStatsResponse.ClusterName a, Host s, k]" and "v = g x"
    by (auto simp: node_proj)
  with ns show ?R by (auto simp: mem_range_map)
next
  assume ?R
  then obtain n s k x where n: "n \<in> set (nodeOrder ord)" "Nodes a n = Some s"
    and k: "k \<in> set (ko n)" "m s k = Some x"
    and eq: "lvs = [NodeStatsResponse.ClusterName a, Host s, k]" "v = g x"
    by blast
  from n have ns: "(n, s) \<in> set (range_map (Nodes a) (nodeOrder ord))"
    by (simp add: mem_range_map)
  from k have "(k, x) \<in> set (range_map (m s) (ko n))"
    by (simp add: mem_range_map)
  then have "(lvs, v) \<in> set (proj fam name (node_sets ord (NodeStatsResponse.ClusterName a) (n, s)))"
    unfolding node_proj eq by force
  with ns show ?L unfolding set_proj_populate by blast
qed

lemma scalar_entries:
  assumes node_proj: "\<And>n s. proj fam name (node_sets ord (NodeStatsResponse.ClusterName a) (n, s)) =
        [([NodeStatsResponse.ClusterName a, Host s], g s)]"
  shows "(lvs, v) \<in> set (proj fam name (populate_sets ord a)) \<longleftrightarrow>
           (\<exists>n s. n \<in> set (nodeOrder ord) \<and> Nodes a n = Some s \<and>
              lvs = [NodeStatsResponse.ClusterName a, Host s] \<and> v = g s)"
    (is "?L \<longleftrightarrow> ?R")
proof
  assume ?L
  then obtain ns where ns: "ns \<in> set (range_map (Nodes a) (nodeOrder ord))"
    and mem: "(lvs, v) \<in> set (proj fam name (node_sets ord (NodeStatsResponse.ClusterName a) ns))"
    unfolding set_proj_populate by blast
  obtain n s where [simp]: "ns = (n, s)" by (cases ns)
  from mem have "lvs = [NodeStatsResponse.ClusterName a, Host s]" and "v = g s"
    by (auto simp: node_proj)
  with ns show ?R by (auto simp: mem_range_map)
next
  assume ?R
  then obtain n s where n: "n \<in> set (nodeOrder ord)" "Nodes a n = Some s"
    and eq: "lvs = [NodeStatsResponse.ClusterName a, Host s]" "v = g s"
    by blast
  from n have ns: "(n, s) \<in> set (range_map (Nodes a) (nodeOrder ord))"
    by (simp add: mem_range_map)
  have "(lvs, v) \<in> set (proj fam name (node_sets ord (NodeStatsResponse.ClusterName a) (n, s)))"
    unfolding node_proj eq by simp
  with ns show ?L unfolding set_proj_populate by blast
qed

lemma scalar_value:
  assumes distinct: "hosts_distinct a ord"
    and node: "(n, s) \<in> set (range_map (Nodes a) (nodeOrder ord))"
    and node_proj: "\<And>n s. proj fam name (node_sets ord (NodeStatsResponse.ClusterName a) (n, s)) =
        [([NodeStatsResponse.ClusterName a, Host s], g s)]"
  shows "map_of (rev (proj fam name (populate_sets ord a)))
           [NodeStatsResponse.ClusterName a, Host s] = Some (g s)"
proof (rule last_write)
  from node show "([NodeStatsResponse.ClusterName a, Host s], g s) \<in> set (proj fam name (populate_sets ord a))"
    unfolding scalar_entries [of fam name ord a g, OF node_proj] by (auto simp: mem_range_map)
next
  fix v'
  assume "([NodeStatsResponse.ClusterName a, Host s], v') \<in> set (proj fam name (populate_sets ord a))"
  then obtain n' s' where n': "n' \<in> set (nodeOrder ord)" "Nodes a n' = Some s'"
    and eq: "Host s = Host s'" "v' = g s'"
    unfolding scalar_entries [of fam name ord a g, OF node_proj] by auto
  from n' have "(n', s') \<in> set (range_map (Nodes a) (nodeOrder ord))"
    by (simp add: mem_range_map)
  with same_host_same_node [OF distinct node this] eq show "v' = g s" by simp
qed

text \<open>
  C8: for every node of a decoded node-stats document and every thread pool of it, the
  cycle executes the statements that set \<open>thread_pool_active_count\<close>,
  \<open>thread_pool_threads_count\<close>, \<open>thread_pool_largest_count\<close> and
  \<open>thread_pool_queue_count\<close> under the labels (cluster, host, pool), all four with the
  active-thread count of the pool, and after the cycle each of the four series holds a
  value under these labels. Whatever one of the four series holds after a cycle is the
  active-thread count of a thread pool of the document, under its labels; the threads,
  largest and queue statistics reach none of them. The four vectors end every cycle with
  the same children; and when no two nodes of the document share a host, what each holds
  for a node and a pool is the active-thread count of that very pool.
\<close>

theorem thread_pool_gauges_all_active:
  assumes "exporter_ok e"
  shows "\<exists>out. Collect e ord env = Inr out \<and>
           series (exporter out) GaugeVecs ''thread_pool_threads_count'' =
             series (exporter out) GaugeVecs ''thread_pool_active_count'' \<and>
           series (exporter out) GaugeVecs ''thread_pool_largest_count'' =
             series (exporter out) GaugeVecs ''thread_pool_active_count'' \<and>
           series (exporter out) GaugeVecs ''thread_pool_queue_count'' =
             series (exporter out) GaugeVecs ''thread_pool_active_count'' \<and>
           (\<forall>allStats n stats pool pstats name.
              nodeStats env = Unmarshalled allStats \<and> order_ok allStats ord \<and>
              Nodes allStats n = Some stats \<and> ThreadPool stats pool = Some pstats \<and>
              name \<in> {''thread_pool_active_count'', ''thread_pool_threads_count'',
                       ''thread_pool_largest_count'', ''thread_pool_queue_count''} \<longrightarrow>
              (GaugeVecs, name, [NodeStatsResponse.ClusterName allStats, Host stats, pool],
                 float64 (Active pstats)) \<in> set (populate_sets ord allStats) \<and>
              series_value (exporter out) GaugeVecs name
                [NodeStatsResponse.ClusterName allStats, Host stats, pool] \<noteq> None) \<and>
           (\<forall>name lvs v.
              name \<in> {''thread_pool_active_count'', ''thread_pool_threads_count'',
                       ''thread_pool_largest_count'', ''thread_pool_queue_count''} \<and>
              series_value (exporter out) GaugeVecs name lvs = Some v \<longrightarrow>
              (\<exists>allStats n stats pool pstats.
                 nodeStats env = Unmarshalled allStats \<and> Nodes allStats n = Some stats \<and>
                 ThreadPool stats pool = Some pstats \<and>
                 lvs = [NodeStatsResponse.ClusterName allStats, Host stats, pool] \<and>
                 v = float64 (Active pstats))) \<and>
           (\<forall>allStats n stats pool pstats name.
              nodeStats env = Unmarshalled allStats \<and> order_ok allStats ord \<and>
              hosts_distinct allStats ord \<and> Nodes allStats n = Some stats \<and>
              ThreadPool stats pool = Some pstats \<and>
              name \<in> {''thread_pool_active_count'', ''thread_pool_threads_count'',
                       ''thread_pool_largest_count'', ''thread_pool_queue_count''} \<longrightarrow>
              series_value (exporter out) GaugeVecs name
                [NodeStatsResponse.ClusterName allStats, Host stats, pool] =
                Some (float64 (Active pstats)))"
proof -
  let ?four = "{''thread_pool_active_count'', ''thread_pool_threads_count'',
                ''thread_pool_largest_count'', ''thread_pool_queue_count''}"
  from Collect_reads [OF assms, of ord env] obtain out
    where out: "Collect e ord env = Inr out"
      and reg: "\<forall>fam name. series (exporter out) fam name = registry_after (cycle_sets ord env) fam name"
    by blast
  have same:
    "proj GaugeVecs ''thread_pool_threads_count'' (cycle_sets ord env) =
       proj GaugeVecs ''thread_pool_active_count'' (cycle_sets ord env)"
    "proj GaugeVecs ''thread_pool_largest_count'' (cycle_sets ord env) =
       proj GaugeVecs ''thread_pool_active_count'' (cycle_sets ord env)"
    "proj GaugeVecs ''thread_pool_queue_count'' (cycle_sets ord env) =
       proj GaugeVecs ''thread_pool_active_count'' (cycle_sets ord env)"
    by (rule proj_cycle_cong; simp add: proj_pool_gauges_node health_sets_def)+
  have eqs:
    "series (exporter out) GaugeVecs ''thread_pool_threads_count'' =
       series (exporter out) GaugeVecs ''thread_pool_active_count''"
    "series (exporter out) GaugeVecs ''thread_pool_largest_count'' =
       series (exporter out) GaugeVecs ''thread_pool_active_count''"
    "series (exporter out) GaugeVecs ''thread_pool_queue_count'' =
       series (exporter out) GaugeVecs ''thread_pool_active_count''"
    by (simp_all add: reg registry_after_def same pool_gauges_in_catalog)
  have held: "series_value (exporter out) GaugeVecs name lvs =
                map_of (rev (proj GaugeVecs name (cycle_sets ord env))) lvs"
    if "name \<in> ?four" for name lvs
    by (simp add: series_value_def reg series_value_registry_after pool_gauge_names(1) [OF that])
  have decoded: "proj GaugeVecs name (cycle_sets ord env) = proj GaugeVecs name (populate_sets ord allStats)"
    if "name \<in> ?four" and "nodeStats env = Unmarshalled allStats" for name allStats
    by (rule proj_cycle_node_series [OF that(2) pool_gauge_names(2) [OF that(1)]])
  have entries: "(lvs, v) \<in> set (proj GaugeVecs name (populate_sets ord allStats)) \<longleftrightarrow>
           (\<exists>n s pool p. n \<in> set (nodeOrder ord) \<and> Nodes allStats n = Some s \<and>
              pool \<in> set (poolOrder ord n) \<and> ThreadPool s pool = Some p \<and>
              lvs = [NodeStatsResponse.ClusterName allStats, Host s, pool] \<and> v = float64 (Active p))"
    if "name \<in> ?four" for name allStats lvs v
    by (rule labelled_entries [where m = ThreadPool and ko = "poolOrder ord"])
      (rule pool_gauge_names(3) [OF that])
  have executed:
    "(GaugeVecs, name, [NodeStatsResponse.ClusterName allStats, Host stats, pool],
        float64 (Active pstats)) \<in> set (populate_sets ord allStats) \<and>
     series_value (exporter out) GaugeVecs name
        [NodeStatsResponse.ClusterName allStats, Host stats, pool] \<noteq> None"
    if env: "nodeStats env = Unmarshalled allStats" and ord: "order_ok allStats ord"
      and node: "Nodes allStats n = Some stats" and pool: "ThreadPool stats pool = Some pstats"
      and name: "name \<in> ?four"
    for allStats n stats pool pstats name
  proof -
    from order_ok_node(1) [OF ord node] have n: "n \<in> set (nodeOrder ord)"
      by (simp add: mem_range_map)
    from visits_entry [OF order_ok_node(4) [OF ord node] pool]
    have p: "pool \<in> set (poolOrder ord n)" by (simp add: mem_range_map)
    from n p node pool
    have mem: "([NodeStatsResponse.ClusterName allStats, Host stats, pool], float64 (Active pstats))
          \<in> set (proj GaugeVecs name (populate_sets ord allStats))"
      unfolding entries [OF name] by blast
    then have "(GaugeVecs, name, [NodeStatsResponse.ClusterName allStats, Host stats, pool],
        float64 (Active pstats)) \<in> set (populate_sets ord allStats)"
      by (simp add: mem_proj)
    moreover from map_of_rev_defined [OF mem]
    have "series_value (exporter out) GaugeVecs name
        [NodeStatsResponse.ClusterName allStats, Host stats, pool] \<noteq> None"
      by (simp add: held [OF name] decoded [OF name env])
    ultimately show ?thesis by blast
  qed
  have origin: "\<exists>allStats n stats pool pstats.
                 nodeStats env = Unmarshalled allStats \<and> Nodes allStats n = Some stats \<and>
                 ThreadPool stats pool = Some pstats \<and>
                 lvs = [NodeStatsResponse.ClusterName allStats, Host stats, pool] \<and>
                 v = float64 (Active pstats)"
    if name: "name \<in> ?four" and v: "series_value (exporter out) GaugeVecs name lvs = Some v"
    for name lvs v
  proof (cases "\<exists>allStats. nodeStats env = Unmarshalled allStats")
    case True
    then obtain allStats where env: "nodeStats env = Unmarshalled allStats" ..
    from v have "(lvs, v) \<in> set (proj GaugeVecs name (populate_sets ord allStats))"
      by (simp add: held [OF name] decoded [OF name env] map_of_rev_mem)
    then show ?thesis
      unfolding entries [OF name] using env by blast
  next
    case False
    then have "cycle_sets ord env = []" by (intro cycle_sets_undecoded) simp
    with v show ?thesis by (simp add: held [OF name])
  qed
  have exact: "series_value (exporter out) GaugeVecs name
                [NodeStatsResponse.ClusterName allStats, Host stats, pool] =
                Some (float64 (Active pstats))"
    if env: "nodeStats env = Unmarshalled allStats" and ord: "order_ok allStats ord"
      and hosts: "hosts_distinct allStats ord" and node: "Nodes allStats n = Some stats"
      and pool: "ThreadPool stats pool = Some pstats" and name: "name \<in> ?four"
    for allStats n stats pool pstats name
  proof -
    have "map_of (rev (proj GaugeVecs name (populate_sets ord allStats)))
            [NodeStatsResponse.ClusterName allStats, Host stats, pool] = Some (float64 (Active pstats))"
      by (rule labelled_value [where m = ThreadPool and ko = "poolOrder ord" and n = n,
            OF hosts order_ok_node(1) [OF ord node]
              visits_entry [OF order_ok_node(4) [OF ord node] pool]])
        (rule pool_gauge_names(3) [OF name])
    then show ?thesis by (simp add: held [OF name] decoded [OF name env])
  qed
  have c1: "\<forall>allStats n stats pool pstats name.
              nodeStats env = Unmarshalled allStats \<and> order_ok allStats ord \<and>
              Nodes allStats n = Some stats \<and> ThreadPool stats pool = Some pstats \<and>
              name \<in> ?four \<longrightarrow>
              (GaugeVecs, name, [NodeStatsResponse.ClusterName allStats, Host stats, pool],
                 float64 (Active pstats)) \<in> set (populate_sets ord allStats) \<and>
              series_value (exporter out) GaugeVecs name
                [NodeStatsResponse.ClusterName allStats, Host stats, pool] \<noteq> None"
    by (intro allI impI; elim conjE; rule executed; assumption)
  have c2: "\<forall>name lvs v.
              name \<in> ?four \<and> series_value (exporter out) GaugeVecs name lvs = Some v \<longrightarrow>
              (\<exists>allStats n stats pool pstats.
                 nodeStats env = Unmarshalled allStats \<and> Nodes allStats n = Some stats \<and>
                 ThreadPool stats pool = Some pstats \<and>
                 lvs = [NodeStatsResponse.ClusterName allStats, Host stats, pool] \<and>
                 v = float64 (Active pstats))"
    by (intro allI impI; elim conjE; rule origin; assumption)
  have c3: "\<forall>allStats n stats pool pstats name.
              nodeStats env = Unmarshalled allStats \<and> order_ok allStats ord \<and>
              hosts_distinct allStats ord \<and> Nodes allStats n = Some stats \<and>
              ThreadPool stats pool = Some pstats \<and> name \<in> ?four \<longrightarrow>
              series_value (exporter out) GaugeVecs name
                [NodeStatsResponse.ClusterName allStats, Host stats, pool] =
                Some (float64 (Active pstats))"
    by (intro allI impI; elim conjE; rule exact; assumption)
  show ?thesis
    by (rule exI [of _ out]) (intro conjI out eqs c1 c2 c3)
qed

theorem thread_pool_gauges_all_active_witness:
  "exporter_ok example_exporter \<and>
   nodeStats example_upstream = Unmarshalled example_stats \<and>
   order_ok example_stats example_order \<and>
   hosts_distinct example_stats example_order \<and>
   Nodes example_stats ''n1'' = Some (example_node ''10.0.0.1'' 2500) \<and>
   ThreadPool (example_node ''10.0.0.1'' 2500) ''search'' =
     Some \<lparr>Threads = 4, Queue = 3, Active = 2, Rejected = 0, Largest = 5, Completed = 100\<rparr> \<and>
   (\<exists>out. Collect example_exporter example_order example_upstream = Inr out \<and>
      series (exporter out) GaugeVecs ''thread_pool_threads_count'' =
        series (exporter out) GaugeVecs ''thread_pool_active_count'' \<and>
      series (exporter out) GaugeVecs ''thread_pool_largest_count'' =
        series (exporter out) GaugeVecs ''thread_pool_active_count'' \<and>
      series (exporter out) GaugeVecs ''thread_pool_queue_count'' =
        series (exporter out) GaugeVecs ''thread_pool_active_count'' \<and>
      (GaugeVecs, ''thread_pool_queue_count'', [''es'', ''10.0.0.1'', ''search''], 2)
        \<in> set (populate_sets example_order example_stats) \<and>
      series_value (exporter out) GaugeVecs ''thread_pool_active_count''
        [''es'', ''10.0.0.1'', ''search''] = Some 2 \<and>
      series_value (exporter out) GaugeVecs ''thread_pool_threads_count''
        [''es'', ''10.0.0.1'', ''search''] = Some 2 \<and>
      series_value (exporter out) GaugeVecs ''thread_pool_largest_count''
        [''es'', ''10.0.0.1'', ''search''] = Some 2 \<and>
      series_value (exporter out) GaugeVecs ''thread_pool_queue_count''
        [''es'', ''10.0.0.1'', ''search''] = Some 2)"
proof -
  let ?four = "{''thread_pool_active_count'', ''thread_pool_threads_count'',
                ''thread_pool_largest_count'', ''thread_pool_queue_count''}"
  let ?pstats = "\<lparr>Threads = 4, Queue = 3, Active = 2, Rejected = 0, Largest = 5, Completed = 100\<rparr>"
  have env: "nodeStats example_upstream = Unmarshalled example_stats"
    by (simp add: example_upstream_def)
  have node: "Nodes example_stats ''n1'' = Some (example_node ''10.0.0.1'' 2500)"
    by (simp add: example_stats_def)
  have pool: "ThreadPool (example_node ''10.0.0.1'' 2500) ''search'' = Some ?pstats"
    by (simp add: example_node_def)
  have host: "Host (example_node ''10.0.0.1'' 2500) = ''10.0.0.1''"
    and cluster: "NodeStatsResponse.ClusterName example_stats = ''es''"
    by (simp_all add: example_node_def example_stats_def)
  have two: "float64 2 = 2" by (simp add: float64_small)
  from thread_pool_gauges_all_active [OF example_exporter_ok, of example_order example_upstream]
  obtain out where out: "Collect example_exporter example_order example_upstream = Inr out"
    and eqs: "series (exporter out) GaugeVecs ''thread_pool_threads_count'' =
        series (exporter out) GaugeVecs ''thread_pool_active_count''"
      "series (exporter out) GaugeVecs ''thread_pool_largest_count'' =
        series (exporter out) GaugeVecs ''thread_pool_active_count''"
      "series (exporter out) GaugeVecs ''thread_pool_queue_count'' =
        series (exporter out) GaugeVecs ''thread_pool_active_count''"
    and c1: "\<forall>allStats n stats pool pstats name.
              nodeStats example_upstream = Unmarshalled allStats \<and> order_ok allStats example_order \<and>
              Nodes allStats n = Some stats \<and> ThreadPool stats pool = Some pstats \<and>
              name \<in> ?four \<longrightarrow>
              (GaugeVecs, name, [NodeStatsResponse.ClusterName allStats, Host stats, pool],
                 float64 (Active pstats)) \<in> set (populate_sets example_order allStats) \<and>
              series_value (exporter out) GaugeVecs name
                [NodeStatsResponse.ClusterName allStats, Host stats, pool] \<noteq> None"
    and c3: "\<forall>allStats n stats pool pstats name.
              nodeStats example_upstream = Unmarshalled allStats \<and> order_ok allStats example_order \<and>
              hosts_distinct allStats example_order \<and> Nodes allStats n = Some stats \<and>
              ThreadPool stats pool = Some pstats \<and> name \<in> ?four \<longrightarrow>
              series_value (exporter out) GaugeVecs name
                [NodeStatsResponse.ClusterName allStats, Host stats, pool] =
                Some (float64 (Active pstats))"
    by (elim exE conjE)
  have vals: "series_value (exporter out) GaugeVecs name [''es'', ''10.0.0.1'', ''search''] = Some 2"
    if "name \<in> ?four" for name
    using c3 [rule_format, of example_stats "''n1''" "example_node ''10.0.0.1'' 2500"
        "''search''" ?pstats name,
        OF conjI [OF env conjI [OF example_order_ok conjI [OF example_hosts_distinct
          conjI [OF node conjI [OF pool that]]]]]]
    by (simp add: host cluster two)
  have stmt: "(GaugeVecs, ''thread_pool_queue_count'', [''es'', ''10.0.0.1'', ''search''], 2)
        \<in> set (populate_sets example_order example_stats)"
    using c1 [rule_format, of example_stats "''n1''" "example_node ''10.0.0.1'' 2500"
        "''search''" ?pstats "''thread_pool_queue_count''",
        OF conjI [OF env conjI [OF example_order_ok conjI [OF node conjI [OF pool]]]]]
    by (simp add: host cluster two)
  show ?thesis
    by (intro conjI example_exporter_ok env example_order_ok example_hosts_distinct node pool
        exI [of _ out] out eqs stmt vals) simp_all
qed

lemma scalar_series_held:
  assumes reg: "\<forall>fam name. series (exporter out) fam name = registry_after (cycle_sets ord env) fam name"
    and cat: "name \<in> fst ` set (catalog_shape fam)"
  shows "series_value (exporter out) fam name lvs =
           map_of (rev (proj fam name (cycle_sets ord env))) lvs"
  by (simp add: series_value_def reg series_value_registry_after [OF cat])

lemma scalar_series_executed:
  assumes reg: "\<forall>fam name. series (exporter out) fam name = registry_after (cycle_sets ord env) fam name"
    and cat: "name \<in> fst ` set (catalog_shape fam)"
    and not_health: "name \<notin> {''cluster_health_status'', ''cluster_health_timed_out'',
      ''cluster_number_of_nodes_total'', ''cluster_number_of_data_nodes_total''}"
    and node_proj: "\<And>c n s. proj fam name (node_sets ord c (n, s)) = [([c, Host s], g s)]"
    and env: "nodeStats env = Unmarshalled a" and ord: "order_ok a ord"
    and node: "Nodes a n = Some s"
  shows "(fam, name, [NodeStatsResponse.ClusterName a, Host s], g s) \<in> set (populate_sets ord a)"
    and "series_value (exporter out) fam name [NodeStatsResponse.ClusterName a, Host s] \<noteq> None"
proof -
  from order_ok_node(1) [OF ord node] have "n \<in> set (nodeOrder ord)"
    by (simp add: mem_range_map)
  with node have mem: "([NodeStatsResponse.ClusterName a, Host s], g s) \<in>
      set (proj fam name (populate_sets ord a))"
    unfolding scalar_entries [of fam name ord a g, OF node_proj] by blast
  then show "(fam, name, [NodeStatsResponse.ClusterName a, Host s], g s) \<in> set (populate_sets ord a)"
    by (simp add: mem_proj)
  from map_of_rev_defined [OF mem]
  show "series_value (exporter out) fam name [NodeStatsResponse.ClusterName a, Host s] \<noteq> None"
    by (simp add: scalar_series_held [OF reg cat] proj_cycle_node_series [OF env not_health])
qed

lemma scalar_series_origin:
  assumes reg: "\<forall>fam name. series (exporter out) fam name = registry_after (cycle_sets ord env) fam name"
    and cat: "name \<in> fst ` set (catalog_shape fam)"
    and not_health: "name \<notin> {''cluster_health_status'', ''cluster_health_timed_out'',
      ''cluster_number_of_nodes_total'', ''cluster_number_of_data_nodes_total''}"
    and node_proj: "\<And>c n s. proj fam name (node_sets ord c (n, s)) = [([c, Host s], g s)]"
    and v: "series_value (exporter out) fam name lvs = Some v"
  shows "\<exists>a n s. nodeStats env = Unmarshalled a \<and> Nodes a n = Some s \<and>
           lvs = [NodeStatsResponse.ClusterName a, Host s] \<and> v = g s"
proof (cases "\<exists>a. nodeStats env = Unmarshalled a")
  case True
  then obtain a where env: "nodeStats env = Unmarshalled a" ..
  from v have "(lvs, v) \<in> set (proj fam name (populate_sets ord a))"
    by (simp add: scalar_series_held [OF reg cat] proj_cycle_node_series [OF env not_health]
        map_of_rev_mem)
  then show ?thesis
    unfolding scalar_entries [of fam name ord a g, OF node_proj] using env by blast
next
  case False
  then have "cycle_sets ord env = []" by (intro cycle_sets_undecoded) simp
  with v show ?thesis by (simp add: scalar_series_held [OF reg cat])
qed

lemma scalar_series_exact:
  assumes reg: "\<forall>fam name. series (exporter out) fam name = registry_after (cycle_sets ord env) fam name"
    and cat: "name \<in> fst ` set (catalog_shape fam)"
    and not_health: "name \<notin> {''cluster_health_status'', ''cluster_health_timed_out'',
      ''cluster_number_of_nodes_total'', ''cluster_number_of_data_nodes_total''}"
    and node_proj: "\<And>c n s. proj fam name (node_sets ord c (n, s)) = [([c, Host s], g s)]"
    and env: "nodeStats env = Unmarshalled a" and ord: "order_ok a ord"
    and hosts: "hosts_distinct a ord" and node: "Nodes a n = Some s"
  shows "series_value (exporter out) fam name [NodeStatsResponse.ClusterName a, Host s] = Some (g s)"
proof -
  have "map_of (rev (proj fam name (populate_sets ord a)))
          [NodeStatsResponse.ClusterName a, Host s] = Some (g s)"
    by (rule scalar_value [OF hosts order_ok_node(1) [OF ord node]]) (rule node_proj)
  then show ?thesis
    by (simp add: scalar_series_held [OF reg cat] proj_cycle_node_series [OF env not_health])
qed

lemma exposed_held:
  assumes ex: "\<forall>name lvs v. name \<noteq> ''up'' \<longrightarrow>
              exposed out name lvs v =
                (reports env \<and> (\<exists>fam. name \<in> fst ` set (catalog_shape fam) \<and>
                   map_of (rev (proj fam name (cycle_sets ord env))) lvs = Some v))"
    and reg: "\<forall>fam name. series (exporter out) fam name = registry_after (cycle_sets ord env) fam name"
    and "name \<noteq> ''up''"
    and only: "\<And>fam'. name \<in> fst ` set (catalog_shape fam') \<longleftrightarrow> fam' = fam"
  shows "exposed out name lvs v \<longleftrightarrow> reports env \<and> series_value (exporter out) fam name lvs = Some v"
proof -
  have cat: "name \<in> fst ` set (catalog_shape fam)" by (simp add: only)
  show ?thesis
    using ex assms(3) by (simp add: only scalar_series_held [OF reg cat])
qed

lemma request_cache_not_health:
  "''indices_request_cache_memory_size_bytes'' \<notin> {''cluster_health_status'',
      ''cluster_health_timed_out'', ''cluster_number_of_nodes_total'',
      ''cluster_number_of_data_nodes_total''}"
  "''indices_request_cache_evictions'' \<notin> {''cluster_health_status'',
      ''cluster_health_timed_out'', ''cluster_number_of_nodes_total'',
      ''cluster_number_of_data_nodes_total''}"
  by simp_all

text \<open>
  C9: for every node of a decoded node-stats document the cycle executes the statements
  that set \<open>indices_request_cache_memory_size_bytes\<close> and
  \<open>indices_request_cache_evictions\<close> under the labels (cluster, host), with the memory
  size and the evictions of the query cache of the snapshot; the request-cache fields
  are not read. After the cycle both series hold a value under these labels, whatever
  they hold is a query-cache field of a node of the document, and when no two nodes
  share a host it is the field of that very node, sent with that value when the cycle
  reaches the report. So the two request-cache vectors end every cycle with the very
  children of the two query-cache vectors, and a request-cache sample is sent exactly
  when the query-cache sample with the same labels and value is.
\<close>

theorem request_cache_mirrors_query_cache:
  assumes "exporter_ok e"
  shows "(\<forall>c n s.
            proj Gauges ''indices_request_cache_memory_size_bytes'' (node_sets ord c (n, s)) =
              [([c, Host s], float64 (MemorySize (QueryCache (Indices s))))] \<and>
            proj Counters ''indices_request_cache_evictions'' (node_sets ord c (n, s)) =
              [([c, Host s], float64 (Evictions (QueryCache (Indices s))))]) \<and>
         (\<exists>out. Collect e ord env = Inr out \<and>
            series (exporter out) Gauges ''indices_request_cache_memory_size_bytes'' =
              series (exporter out) Gauges ''indices_query_cache_memory_size_bytes'' \<and>
            series (exporter out) Counters ''indices_request_cache_evictions'' =
              series (exporter out) Counters ''indices_query_cache_evictions'' \<and>
            (\<forall>lvs v. exposed out ''indices_request_cache_memory_size_bytes'' lvs v =
                      exposed out ''indices_query_cache_memory_size_bytes'' lvs v) \<and>
            (\<forall>lvs v. exposed out ''indices_request_cache_evictions'' lvs v =
                      exposed out ''indices_query_cache_evictions'' lvs v) \<and>
            (\<forall>allStats n stats.
               nodeStats env = Unmarshalled allStats \<and> order_ok allStats ord \<and>
               Nodes allStats n = Some stats \<longrightarrow>
               (Gauges, ''indices_request_cache_memory_size_bytes'',
                  [NodeStatsResponse.ClusterName allStats, Host stats],
                  float64 (MemorySize (QueryCache (Indices stats)))) \<in> set (populate_sets ord allStats) \<and>
               (Counters, ''indices_request_cache_evictions'',
                  [NodeStatsResponse.ClusterName allStats, Host stats],
                  float64 (Evictions (QueryCache (Indices stats)))) \<in> set (populate_sets ord allStats) \<and>
               series_value (exporter out) Gauges ''indices_request_cache_memory_size_bytes''
                 [NodeStatsResponse.ClusterName allStats, Host stats] \<noteq> None \<and>
               series_value (exporter out) Counters ''indices_request_cache_evictions''
                 [NodeStatsResponse.ClusterName allStats, Host stats] \<noteq> None) \<and>
            (\<forall>lvs v.
               series_value (exporter out) Gauges ''indices_request_cache_memory_size_bytes'' lvs = Some v \<longrightarrow>
               (\<exists>allStats n stats. nodeStats env = Unmarshalled allStats \<and>
                  Nodes allStats n = Some stats \<and>
                  lvs = [NodeStatsResponse.ClusterName allStats, Host stats] \<and>
                  v = float64 (MemorySize (QueryCache (Indices stats))))) \<and>
            (\<forall>lvs v.
               series_value (exporter out) Counters ''indices_request_cache_evictions'' lvs = Some v \<longrightarrow>
               (\<exists>allStats n stats. nodeStats env = Unmarshalled allStats \<and>
                  Nodes allStats n = Some stats \<and>
                  lvs = [NodeStatsResponse.ClusterName allStats, Host stats] \<and>
                  v = float64 (Evictions (QueryCache (Indices stats))))) \<and>
            (\<forall>allStats n stats.
               nodeStats env = Unmarshalled allStats \<and> order_ok allStats ord \<and>
               hosts_distinct allStats ord \<and> Nodes allStats n = Some stats \<longrightarrow>
               series_value (exporter out) Gauges ''indices_request_cache_memory_size_bytes''
                 [NodeStatsResponse.ClusterName allStats, Host stats] =
                 Some (float64 (MemorySize (QueryCache (Indices stats)))) \<and>
               series_value (exporter out) Counters ''indices_request_cache_evictions''
                 [NodeStatsResponse.ClusterName allStats, Host stats] =
                 Some (float64 (Evictions (QueryCache (Indices stats))))) \<and>
            (\<forall>lvs v. exposed out ''indices_request_cache_memory_size_bytes'' lvs v =
               (reports env \<and>
                series_value (exporter out) Gauges ''indices_request_cache_memory_size_bytes'' lvs =
                  Some v)) \<and>
            (\<forall>lvs v. exposed out ''indices_request_cache_evictions'' lvs v =
               (reports env \<and>
                series_value (exporter out) Counters ''indices_request_cache_evictions'' lvs =
                  Some v)))"
proof -
  from Collect_reads [OF assms, of ord env] obtain out
    where out: "Collect e ord env = Inr out"
      and reg: "\<forall>fam name. series (exporter out) fam name = registry_after (cycle_sets ord env) fam name"
      and ex: "\<forall>name lvs v. name \<noteq> ''up'' \<longrightarrow>
              exposed out name lvs v =
                (reports env \<and> (\<exists>fam. name \<in> fst ` set (catalog_shape fam) \<and>
                   map_of (rev (proj fam name (cycle_sets ord env))) lvs = Some v))"
    by blast
  have same:
    "proj Gauges ''indices_request_cache_memory_size_bytes'' (cycle_sets ord env) =
       proj Gauges ''indices_query_cache_memory_size_bytes'' (cycle_sets ord env)"
    "proj Counters ''indices_request_cache_evictions'' (cycle_sets ord env) =
       proj Counters ''indices_query_cache_evictions'' (cycle_sets ord env)"
    by (rule proj_cycle_cong; simp add: proj_request_cache_node health_sets_def)+
  have eqs: "series (exporter out) Gauges ''indices_request_cache_memory_size_bytes'' =
          series (exporter out) Gauges ''indices_query_cache_memory_size_bytes''"
    "series (exporter out) Counters ''indices_request_cache_evictions'' =
          series (exporter out) Counters ''indices_query_cache_evictions''"
    by (simp_all add: reg registry_after_def same request_cache_in_catalog)
  have sent_mem: "\<forall>lvs v. exposed out ''indices_request_cache_memory_size_bytes'' lvs v =
                 exposed out ''indices_query_cache_memory_size_bytes'' lvs v"
    by (intro allI, rule exposed_cong [OF ex, where ?fam0.0 = Gauges])
      (simp_all add: request_cache_only_in same)
  have sent_ev: "\<forall>lvs v. exposed out ''indices_request_cache_evictions'' lvs v =
                 exposed out ''indices_query_cache_evictions'' lvs v"
    by (intro allI, rule exposed_cong [OF ex, where ?fam0.0 = Counters])
      (simp_all add: request_cache_only_in same)
  note mem = request_cache_in_catalog(1) request_cache_not_health(1) proj_request_cache_node(1)
  note ev = request_cache_in_catalog(3) request_cache_not_health(2) proj_request_cache_node(3)
  have executed: "\<forall>allStats n stats.
               nodeStats env = Unmarshalled allStats \<and> order_ok allStats ord \<and>
               Nodes allStats n = Some stats \<longrightarrow>
               (Gauges, ''indices_request_cache_memory_size_bytes'',
                  [NodeStatsResponse.ClusterName allStats, Host stats],
                  float64 (MemorySize (QueryCache (Indices stats)))) \<in> set (populate_sets ord allStats) \<and>
               (Counters, ''indices_request_cache_evictions'',
                  [NodeStatsResponse.ClusterName allStats, Host stats],
                  float64 (Evictions (QueryCache (Indices stats)))) \<in> set (populate_sets ord allStats) \<and>
               series_value (exporter out) Gauges ''indices_request_cache_memory_size_bytes''
                 [NodeStatsResponse.ClusterName allStats, Host stats] \<noteq> None \<and>
               series_value (exporter out) Counters ''indices_request_cache_evictions''
                 [NodeStatsResponse.ClusterName allStats, Host stats] \<noteq> None"
  proof (intro allI impI, elim conjE)
    fix allStats n stats
    assume env: "nodeStats env = Unmarshalled allStats" and ord: "order_ok allStats ord"
      and node: "Nodes allStats n = Some stats"
    note m = scalar_series_executed
      [where g = "\<lambda>s. float64 (MemorySize (QueryCache (Indices s)))", OF reg mem env ord node]
    note v = scalar_series_executed
      [where g = "\<lambda>s. float64 (Evictions (QueryCache (Indices s)))", OF reg ev env ord node]
    show "(Gauges, ''indices_request_cache_memory_size_bytes'',
                  [NodeStatsResponse.ClusterName allStats, Host stats],
                  float64 (MemorySize (QueryCache (Indices stats)))) \<in> set (populate_sets ord allStats) \<and>
               (Counters, ''indices_request_cache_evictions'',
                  [NodeStatsResponse.ClusterName allStats, Host stats],
                  float64 (Evictions (QueryCache (Indices stats)))) \<in> set (populate_sets ord allStats) \<and>
               series_value (exporter out) Gauges ''indices_request_cache_memory_size_bytes''
                 [NodeStatsResponse.ClusterName allStats, Host stats] \<noteq> None \<and>
               series_value (exporter out) Counters ''indices_request_cache_evictions''
                 [NodeStatsResponse.ClusterName allStats, Host stats] \<noteq> None"
      by (intro conjI m v)
  qed
  have origin_mem: "\<forall>lvs v.
               series_value (exporter out) Gauges ''indices_request_cache_memory_size_bytes'' lvs = Some v \<longrightarrow>
               (\<exists>allStats n stats. nodeStats env = Unmarshalled allStats \<and>
                  Nodes allStats n = Some stats \<and>
                  lvs = [NodeStatsResponse.ClusterName allStats, Host stats] \<and>
                  v = float64 (MemorySize (QueryCache (Indices stats))))"
    by (intro allI impI,
        rule scalar_series_origin
          [where g = "\<lambda>s. float64 (MemorySize (QueryCache (Indices s)))", OF reg mem])
  have origin_ev: "\<forall>lvs v.
               series_value (exporter out) Counters ''indices_request_cache_evictions'' lvs = Some v \<longrightarrow>
               (\<exists>allStats n stats. nodeStats env = Unmarshalled allStats \<and>
                  Nodes allStats n = Some stats \<and>
                  lvs = [NodeStatsResponse.ClusterName allStats, Host stats] \<and>
                  v = float64 (Evictions (QueryCache (Indices stats))))"
    by (intro allI impI,
        rule scalar_series_origin
          [where g = "\<lambda>s. float64 (Evictions (QueryCache (Indices s)))", OF reg ev])
  have exact: "\<forall>allStats n stats.
               nodeStats env = Unmarshalled allStats \<and> order_ok allStats ord \<and>
               hosts_distinct allStats ord \<and> Nodes allStats n = Some stats \<longrightarrow>
               series_value (exporter out) Gauges ''indices_request_cache_memory_size_bytes''
                 [NodeStatsResponse.ClusterName allStats, Host stats] =
                 Some (float64 (MemorySize (QueryCache (Indices stats)))) \<and>
               series_value (exporter out) Counters ''indices_request_cache_evictions''
                 [NodeStatsResponse.ClusterName allStats, Host stats] =
                 Some (float64 (Evictions (QueryCache (Indices stats))))"
  proof (intro allI impI, elim conjE)
    fix allStats n stats
    assume env: "nodeStats env = Unmarshalled allStats" and ord: "order_ok allStats ord"
      and hosts: "hosts_distinct allStats ord" and node: "Nodes allStats n = Some stats"
    note m = scalar_series_exact
      [where g = "\<lambda>s. float64 (MemorySize (QueryCache (Indices s)))", OF reg mem env ord hosts node]
    note v = scalar_series_exact
      [where g = "\<lambda>s. float64 (Evictions (QueryCache (Indices s)))", OF reg ev env ord hosts node]
    show "series_value (exporter out) Gauges ''indices_request_cache_memory_size_bytes''
                 [NodeStatsResponse.ClusterName allStats, Host stats] =
                 Some (float64 (MemorySize (QueryCache (Indices stats)))) \<and>
               series_value (exporter out) Counters ''indices_request_cache_evictions''
                 [NodeStatsResponse.ClusterName allStats, Host stats] =
                 Some (float64 (Evictions (QueryCache (Indices stats))))"
      by (intro conjI m v)
  qed
  have held_mem: "\<forall>lvs v. exposed out ''indices_request_cache_memory_size_bytes'' lvs v =
               (reports env \<and>
                series_value (exporter out) Gauges ''indices_request_cache_memory_size_bytes'' lvs =
                  Some v)"
    by (intro allI, rule exposed_held [OF ex reg]) (simp_all add: request_cache_only_in)
  have held_ev: "\<forall>lvs v. exposed out ''indices_request_cache_evictions'' lvs v =
               (reports env \<and>
                series_value (exporter out) Counters ''indices_request_cache_evictions'' lvs =
                  Some v)"
    by (intro allI, rule exposed_held [OF ex reg]) (simp_all add: request_cache_only_in)
  have node_level: "\<forall>c n s.
            proj Gauges ''indices_request_cache_memory_size_bytes'' (node_sets ord c (n, s)) =
              [([c, Host s], float64 (MemorySize (QueryCache (Indices s))))] \<and>
            proj Counters ''indices_request_cache_evictions'' (node_sets ord c (n, s)) =
              [([c, Host s], float64 (Evictions (QueryCache (Indices s))))]"
    by (simp add: proj_request_cache_node)
  show ?thesis
    by (intro conjI node_level, rule exI [of _ out])
      (intro conjI out eqs sent_mem sent_ev executed origin_mem origin_ev exact held_mem held_ev)
qed

lemma example_reports: "reports example_upstream"
  by (simp add: reports_def example_upstream_def)

theorem request_cache_mirrors_query_cache_witness:
  "exporter_ok example_exporter \<and>
   nodeStats example_upstream = Unmarshalled example_stats \<and>
   order_ok example_stats example_order \<and>
   hosts_distinct example_stats example_order \<and>
   Nodes example_stats ''n1'' = Some (example_node ''10.0.0.1'' 2500) \<and>
   QueryCache (Indices (example_node ''10.0.0.1'' 2500)) = \<lparr>MemorySize = 111, Evictions = 3\<rparr> \<and>
   RequestCache (Indices (example_node ''10.0.0.1'' 2500)) = \<lparr>MemorySize = 222, Evictions = 4\<rparr> \<and>
   (\<exists>out. Collect example_exporter example_order example_upstream = Inr out \<and>
      series (exporter out) Gauges ''indices_request_cache_memory_size_bytes'' =
        series (exporter out) Gauges ''indices_query_cache_memory_size_bytes'' \<and>
      series (exporter out) Counters ''indices_request_cache_evictions'' =
        series (exporter out) Counters ''indices_query_cache_evictions'' \<and>
      series_value (exporter out) Gauges ''indices_request_cache_memory_size_bytes''
        [''es'', ''10.0.0.1''] = Some 111 \<and>
      series_value (exporter out) Counters ''indices_request_cache_evictions''
        [''es'', ''10.0.0.1''] = Some 3 \<and>
      exposed out ''indices_request_cache_memory_size_bytes'' [''es'', ''10.0.0.1''] 111 \<and>
      \<not> exposed out ''indices_request_cache_memory_size_bytes'' [''es'', ''10.0.0.1''] 222 \<and>
      exposed out ''indices_request_cache_evictions'' [''es'', ''10.0.0.1''] 3 \<and>
      \<not> exposed out ''indices_request_cache_evictions'' [''es'', ''10.0.0.1''] 4)"
proof -
  have env: "nodeStats example_upstream = Unmarshalled example_stats"
    by (simp add: example_upstream_def)
  have node: "Nodes example_stats ''n1'' = Some (example_node ''10.0.0.1'' 2500)"
    by (simp add: example_stats_def)
  have host: "Host (example_node ''10.0.0.1'' 2500) = ''10.0.0.1''"
    and cluster: "NodeStatsResponse.ClusterName example_stats = ''es''"
    and query: "QueryCache (Indices (example_node ''10.0.0.1'' 2500)) =
      \<lparr>MemorySize = 111, Evictions = 3\<rparr>"
    and request: "RequestCache (Indices (example_node ''10.0.0.1'' 2500)) =
      \<lparr>MemorySize = 222, Evictions = 4\<rparr>"
    by (simp_all add: example_node_def example_stats_def)
  have nums: "float64 111 = 111" "float64 3 = 3" by (simp_all add: float64_small)
  from request_cache_mirrors_query_cache [OF example_exporter_ok, of example_order example_upstream]
  obtain out where out: "Collect example_exporter example_order example_upstream = Inr out"
    and eqs: "series (exporter out) Gauges ''indices_request_cache_memory_size_bytes'' =
        series (exporter out) Gauges ''indices_query_cache_memory_size_bytes''"
      "series (exporter out) Counters ''indices_request_cache_evictions'' =
        series (exporter out) Counters ''indices_query_cache_evictions''"
    and exact: "\<forall>allStats n stats.
               nodeStats example_upstream = Unmarshalled allStats \<and> order_ok allStats example_order \<and>
               hosts_distinct allStats example_order \<and> Nodes allStats n = Some stats \<longrightarrow>
               series_value (exporter out) Gauges ''indices_request_cache_memory_size_bytes''
                 [NodeStatsResponse.ClusterName allStats, Host stats] =
                 Some (float64 (MemorySize (QueryCache (Indices stats)))) \<and>
               series_value (exporter out) Counters ''indices_request_cache_evictions''
                 [NodeStatsResponse.ClusterName allStats, Host stats] =
                 Some (float64 (Evictions (QueryCache (Indices stats))))"
    and held_mem: "\<forall>lvs v. exposed out ''indices_request_cache_memory_size_bytes'' lvs v =
               (reports example_upstream \<and>
                series_value (exporter out) Gauges ''indices_request_cache_memory_size_bytes'' lvs =
                  Some v)"
    and held_ev: "\<forall>lvs v. exposed out ''indices_request_cache_evictions'' lvs v =
               (reports example_upstream \<and>
                series_value (exporter out) Counters ''indices_request_cache_evictions'' lvs =
                  Some v)"
    by (elim exE conjE)
  from exact [rule_format, of example_stats "''n1''" "example_node ''10.0.0.1'' 2500",
      OF conjI [OF env conjI [OF example_order_ok conjI [OF example_hosts_distinct node]]]]
  have vals: "series_value (exporter out) Gauges ''indices_request_cache_memory_size_bytes''
        [''es'', ''10.0.0.1''] = Some 111"
    "series_value (exporter out) Counters ''indices_request_cache_evictions''
        [''es'', ''10.0.0.1''] = Some 3"
    by (simp_all add: host cluster query nums)
  have sent: "exposed out ''indices_request_cache_memory_size_bytes'' [''es'', ''10.0.0.1''] 111"
    "\<not> exposed out ''indices_request_cache_memory_size_bytes'' [''es'', ''10.0.0.1''] 222"
    "exposed out ''indices_request_cache_evictions'' [''es'', ''10.0.0.1''] 3"
    "\<not> exposed out ''indices_request_cache_evictions'' [''es'', ''10.0.0.1''] 4"
    by (simp_all add: held_mem held_ev vals example_reports)
  show ?thesis
    by (intro conjI example_exporter_ok env example_order_ok example_hosts_distinct node query
        request exI [of _ out] out eqs vals sent)
qed

lemma stmt_key_simp [simp]: "stmt_key (fam, name, lvs, v) = (fam, name, lvs)"
  by (simp add: stmt_key_def)

lemma keys_gc:
  assumes "visits m ks"
  shows "stmt_key ` set (gc_sets c h (range_map m ks)) =
     {(CounterVecs, name, [c, h, collector]) | name collector.
        name \<in> {''jvm_gc_collection_seconds_count'', ''jvm_gc_collection_seconds_sum''} \<and>
        collector \<in> dom m}"
  using assms by (force simp: gc_sets_def mem_range_map visits_def image_iff)

lemma keys_breaker:
  assumes "visits m ks"
  shows "stmt_key ` set (breaker_sets c h (range_map m ks)) =
     {(GaugeVecs, name, [c, h, breaker]) | name breaker.
        name \<in> {''breakers_estimated_size_bytes'', ''breakers_limit_size_bytes''} \<and>
        breaker \<in> dom m}"
  using assms by (force simp: breaker_sets_def mem_range_map visits_def image_iff)

lemma keys_pool:
  assumes "visits m ks"
  shows "stmt_key ` set (pool_sets c h (range_map m ks)) =
     {(CounterVecs, name, [c, h, pool]) | name pool.
        name \<in> {''thread_pool_completed_count'', ''thread_pool_rejected_count''} \<and>
        pool \<in> dom m} \<union>
     {(GaugeVecs, name, [c, h, pool]) | name pool.
        name \<in> {''thread_pool_active_count'', ''thread_pool_threads_count'',
                 ''thread_pool_largest_count'', ''thread_pool_queue_count''} \<and>
        pool \<in> dom m}"
  using assms by (force simp: pool_sets_def mem_range_map visits_def image_iff)

lemma keys_jvm_mem:
  "stmt_key ` set (jvm_mem_sets c h mem) =
     {(GaugeVecs, ''jvm_memory_committed_bytes'', [c, h, ''heap'']),
      (GaugeVecs, ''jvm_memory_used_bytes'', [c, h, ''heap'']),
      (GaugeVecs, ''jvm_memory_max_bytes'', [c, h, ''heap'']),
      (GaugeVecs, ''jvm_memory_committed_bytes'', [c, h, ''non-heap'']),
      (GaugeVecs, ''jvm_memory_used_bytes'', [c, h, ''non-heap''])}"
  by (simp add: jvm_mem_sets_def)

lemma keys_scalar:
  "map stmt_key (indices_sets c h ind @ transport_sets c h tr @ process_sets c h pr) =
     map (\<lambda>(fam, name). (fam, name, [c, h])) node_series @
     [(CounterVecs, ''process_cpu_time_seconds_sum'', [c, h, ''total'']),
      (CounterVecs, ''process_cpu_time_seconds_sum'', [c, h, ''sys'']),
      (CounterVecs, ''process_cpu_time_seconds_sum'', [c, h, ''user''])]"
  by (simp add: indices_sets_def transport_sets_def process_sets_def node_series_def)

lemma keys_scalar_set:
  "stmt_key ` set (indices_sets c h ind @ transport_sets c h tr @ process_sets c h pr) =
     {(fam, name, [c, h]) | fam name. (fam, name) \<in> set node_series} \<union>
     {(CounterVecs, ''process_cpu_time_seconds_sum'', [c, h, kind]) | kind.
        kind \<in> {''total'', ''sys'', ''user''}}"
proof -
  have "stmt_key ` set (indices_sets c h ind @ transport_sets c h tr @ process_sets c h pr) =
          set (map stmt_key (indices_sets c h ind @ transport_sets c h tr @ process_sets c h pr))"
    by (simp only: set_map)
  also have "\<dots> = (\<lambda>(fam, name). (fam, name, [c, h])) ` set node_series \<union>
      {(CounterVecs, ''process_cpu_time_seconds_sum'', [c, h, ''total'']),
       (CounterVecs, ''process_cpu_time_seconds_sum'', [c, h, ''sys'']),
       (CounterVecs, ''process_cpu_time_seconds_sum'', [c, h, ''user''])}"
    by (simp only: keys_scalar set_append set_map list.set)
  also have "(\<lambda>(fam, name). (fam, name, [c, h])) ` set node_series =
      {(fam, name, [c, h]) | fam name. (fam, name) \<in> set node_series}"
    by force
  also have "{(CounterVecs, ''process_cpu_time_seconds_sum'', [c, h, ''total'']),
       (CounterVecs, ''process_cpu_time_seconds_sum'', [c, h, ''sys'']),
       (CounterVecs, ''process_cpu_time_seconds_sum'', [c, h, ''user''])} =
      {(CounterVecs, ''process_cpu_time_seconds_sum'', [c, h, kind]) | kind.
        kind \<in> {''total'', ''sys'', ''user''}}"
    by blast
  finally show ?thesis .
qed

lemma keys_node:
  assumes "visits (Collectors (GC (JVM s))) (collectorOrder ord n)"
    and "visits (Breakers s) (breakerOrder ord n)"
    and "visits (ThreadPool s) (poolOrder ord n)"
  shows "stmt_key ` set (node_sets ord c (n, s)) = observed_node c s"
proof -
  have "stmt_key ` set (node_sets ord c (n, s)) =
      stmt_key ` set (gc_sets c (Host s) (range_map (Collectors (GC (JVM s))) (collectorOrder ord n))) \<union>
      stmt_key ` set (breaker_sets c (Host s) (range_map (Breakers s) (breakerOrder ord n))) \<union>
      stmt_key ` set (pool_sets c (Host s) (range_map (ThreadPool s) (poolOrder ord n))) \<union>
      stmt_key ` set (jvm_mem_sets c (Host s) (Mem (JVM s))) \<union>
      stmt_key ` set (indices_sets c (Host s) (Indices s) @ transport_sets c (Host s) (Transport s) @
                      process_sets c (Host s) (Process s))"
    by (simp only: node_sets_def prod.case set_append image_Un Un_assoc)
  then show ?thesis
    by (simp only: keys_gc [OF assms(1)] keys_breaker [OF assms(2)] keys_pool [OF assms(3)]
        keys_jvm_mem keys_scalar_set observed_node_def Un_assoc)
qed

lemma comp_insert: "{f x | x. x \<in> insert a A} = insert (f a) {f x | x. x \<in> A}"
  by blast

lemma comp_empty: "{f x | x. x \<in> {}} = {}"
  by blast

lemma keys_health: "stmt_key ` set (health_sets cs) = observed_health cs"
proof -
  have "stmt_key ` set (health_sets cs) =
      {(Gauges, ''cluster_health_status'', [ClusterName cs, ''unknown'']),
       (Gauges, ''cluster_health_timed_out'', [ClusterName cs, ''unknown'']),
       (Gauges, ''cluster_number_of_nodes_total'', [ClusterName cs, ''unknown'']),
       (Gauges, ''cluster_number_of_data_nodes_total'', [ClusterName cs, ''unknown''])}"
    by (simp add: health_sets_def)
  also have "\<dots> = observed_health cs"
    unfolding observed_health_def by (simp only: comp_insert comp_empty)
  finally show ?thesis .
qed

lemma keys_populate:
  assumes "order_ok a ord"
  shows "stmt_key ` set (populate_sets ord a) =
           (\<Union>stats\<in>ran (Nodes a). observed_node (NodeStatsResponse.ClusterName a) stats)"
proof (rule set_eqI, rule iffI)
  fix x
  assume "x \<in> stmt_key ` set (populate_sets ord a)"
  then obtain n s where ns: "(n, s) \<in> set (range_map (Nodes a) (nodeOrder ord))"
    and x: "x \<in> stmt_key ` set (node_sets ord (NodeStatsResponse.ClusterName a) (n, s))"
    by (auto simp: populate_sets_def)
  from ns have node: "Nodes a n = Some s" by (simp add: mem_range_map)
  from x keys_node [OF order_ok_node(2-4) [OF assms node]]
  have "x \<in> observed_node (NodeStatsResponse.ClusterName a) s" by simp
  moreover from node have "s \<in> ran (Nodes a)" by (auto simp: ran_def)
  ultimately show "x \<in> (\<Union>stats\<in>ran (Nodes a). observed_node (NodeStatsResponse.ClusterName a) stats)"
    by blast
next
  fix x
  assume "x \<in> (\<Union>stats\<in>ran (Nodes a). observed_node (NodeStatsResponse.ClusterName a) stats)"
  then obtain n s where node: "Nodes a n = Some s"
    and x: "x \<in> observed_node (NodeStatsResponse.ClusterName a) s"
    by (auto simp: ran_def)
  from x keys_node [OF order_ok_node(2-4) [OF assms node]]
  have "x \<in> stmt_key ` set (node_sets ord (NodeStatsResponse.ClusterName a) (n, s))" by simp
  with order_ok_node(1) [OF assms node]
  show "x \<in> stmt_key ` set (populate_sets ord a)"
    by (force simp: populate_sets_def)
qed

lemma keys_cycle:
  assumes "\<forall>allStats. nodeStats env = Unmarshalled allStats \<longrightarrow> order_ok allStats ord"
  shows "stmt_key ` set (cycle_sets ord env) = observed env"
proof (cases "nodeStats env")
  case (Unmarshalled a)
  with assms have "order_ok a ord" by simp
  from keys_populate [OF this] Unmarshalled show ?thesis
    by (cases "clusterHealth env") (simp_all add: cycle_sets_def observed_def image_Un keys_health)
qed (simp_all add: cycle_sets_def observed_def)

lemma stmt_key_mem:
  "(\<exists>v. (fam, name, lvs, v) \<in> set ss) \<longleftrightarrow> (fam, name, lvs) \<in> stmt_key ` set ss"
  by (force simp: stmt_key_def)

lemma example_observed_docs:
  "(Gauges, ''indices_docs'', [''es'', ''10.0.0.1'']) \<in> observed example_upstream"
  "(Gauges, ''indices_docs'', [''es'', ''10.0.0.9'']) \<notin> observed example_upstream"
  "(Gauges, ''process_max_files_count'', [''es'', ''10.0.0.1'']) \<notin> observed example_upstream"
  by (simp_all add: observed_def example_upstream_def example_stats_def observed_node_def
      observed_health_def example_node_def example_health_def node_series_def)

lemma example_upstream_order:
  "\<forall>allStats. nodeStats example_upstream = Unmarshalled allStats \<longrightarrow> order_ok allStats example_order"
  by (simp add: example_upstream_def example_order_ok)

lemma stale_upstream_order:
  "\<forall>allStats. nodeStats \<lparr>nodeStats = Unmarshalled stale_stats,
        clusterHealth = Unmarshalled example_health\<rparr> = Unmarshalled allStats \<longrightarrow>
      order_ok allStats (example_order\<lparr>nodeOrder := [''n9'']\<rparr>)"
  by (simp add: order_ok_def range_map_def stale_stats_def example_order_def example_node_def
      zero_node_def visits_def)

lemma stale_observed_docs:
  "(Gauges, ''indices_docs'', [''es'', ''10.0.0.9'']) \<in>
     observed \<lparr>nodeStats = Unmarshalled stale_stats, clusterHealth = Unmarshalled example_health\<rparr>"
  by (simp add: observed_def stale_stats_def observed_node_def example_node_def node_series_def)

text \<open>
  C4: every cycle empties the vectors before it sets anything. After the cycle a series
  holds a value for a label tuple exactly when a statement of this cycle has set it, and,
  the loops of the cycle visiting every key of their maps once, exactly when the pair of
  the series and the tuple is among those the two documents just fetched give rise to
  (\<open>observed\<close>: read off the documents, not off the statements); a vector holds one child
  for a tuple; the first two labels of a tuple that holds a value are the cluster name and
  the host of a node of the node-stats document just fetched, or the cluster name of the
  health document just fetched and \<open>unknown\<close>; a sample sent, other than that of
  \<open>elasticsearch_up\<close>, is the value of such a series; and the vectors, and the samples
  sent (as a multiset: the order of sending is not determined), are the same whatever the
  earlier cycles left in the exporter.
\<close>

theorem cycle_leaves_no_stale_series:
  assumes "exporter_ok e"
  shows "\<exists>out. Collect e ord env = Inr out \<and>
           (\<forall>fam name lvs.
              (series_value (exporter out) fam name lvs \<noteq> None) =
                (\<exists>v. (fam, name, lvs, v) \<in> set (cycle_sets ord env))) \<and>
           ((\<forall>allStats. nodeStats env = Unmarshalled allStats \<longrightarrow> order_ok allStats ord) \<longrightarrow>
              (\<forall>fam name lvs.
                 (series_value (exporter out) fam name lvs \<noteq> None) =
                   ((fam, name, lvs) \<in> observed env))) \<and>
           (\<forall>fam name cs. series (exporter out) fam name = Some cs \<longrightarrow> distinct (map fst cs)) \<and>
           (\<forall>fam name lvs v.
              series_value (exporter out) fam name lvs = Some v \<longrightarrow>
                (\<exists>allStats. nodeStats env = Unmarshalled allStats \<and>
                   ((\<exists>n stats. n \<in> set (nodeOrder ord) \<and> Nodes allStats n = Some stats \<and>
                       take 2 lvs = [NodeStatsResponse.ClusterName allStats, Host stats]) \<or>
                    (\<exists>clusterStat. clusterHealth env = Unmarshalled clusterStat \<and>
                       lvs = [ClusterName clusterStat, ''unknown''])))) \<and>
           (\<forall>name lvs v.
              name \<noteq> ''up'' \<and> exposed out name lvs v \<longrightarrow>
                (\<exists>fam. series_value (exporter out) fam name lvs = Some v)) \<and>
           (\<forall>e'. exporter_ok e' \<longrightarrow>
              (\<exists>out'. Collect e' ord env = Inr out' \<and> mset (sent out') = mset (sent out) \<and>
                 (\<forall>fam name. series (exporter out') fam name = series (exporter out) fam name)))"
proof -
  from Collect_reads [OF assms, of ord env] obtain out
    where out: "Collect e ord env = Inr out" and ok: "exporter_ok (exporter out)"
      and up: "up (exporter out) = up_after env"
      and sent: "sent out = (if reports env then report (exporter out) else []) @ [up_metric (exporter out)]"
      and reg: "\<forall>fam name. series (exporter out) fam name = registry_after (cycle_sets ord env) fam name"
      and ex: "\<forall>name lvs v. name \<noteq> ''up'' \<longrightarrow>
              exposed out name lvs v =
                (reports env \<and> (\<exists>fam. name \<in> fst ` set (catalog_shape fam) \<and>
                   map_of (rev (proj fam name (cycle_sets ord env))) lvs = Some v))"
    by (elim exE conjE)
  have exact: "(series_value (exporter out) fam name lvs \<noteq> None) =
                (\<exists>v. (fam, name, lvs, v) \<in> set (cycle_sets ord env))" for fam name lvs
  proof (cases "name \<in> fst ` set (catalog_shape fam)")
    case True
    from series_value_set [OF True, where ss = "cycle_sets ord env" and lvs = lvs]
    show ?thesis by (simp add: series_value_def reg)
  next
    case False
    then have "(fam, name, lvs, v) \<notin> set (cycle_sets ord env)" for v
      using stmt_in_catalog [OF cycle_sets_ok] by blast
    with False show ?thesis by (simp add: series_value_def reg registry_after_def)
  qed
  have docs: "\<forall>fam name lvs.
                 (series_value (exporter out) fam name lvs \<noteq> None) =
                   ((fam, name, lvs) \<in> observed env)"
    if "\<forall>allStats. nodeStats env = Unmarshalled allStats \<longrightarrow> order_ok allStats ord"
    by (simp only: exact stmt_key_mem keys_cycle [OF that]) simp
  have one: "distinct (map fst cs)" if "series (exporter out) fam name = Some cs" for fam name cs
  proof -
    from that reg have "registry_after (cycle_sets ord env) fam name = Some cs" by simp
    then have "cs = upsert_all (proj fam name (cycle_sets ord env)) []"
      by (simp add: registry_after_def split: if_splits)
    with distinct_upsert_all [of "[]" "proj fam name (cycle_sets ord env)"] show ?thesis by simp
  qed
  have fresh: "\<exists>allStats. nodeStats env = Unmarshalled allStats \<and>
                   ((\<exists>n stats. n \<in> set (nodeOrder ord) \<and> Nodes allStats n = Some stats \<and>
                       take 2 lvs = [NodeStatsResponse.ClusterName allStats, Host stats]) \<or>
                    (\<exists>clusterStat. clusterHealth env = Unmarshalled clusterStat \<and>
                       lvs = [ClusterName clusterStat, ''unknown'']))"
    if "series_value (exporter out) fam name lvs = Some v" for fam name lvs v
  proof -
    from that exact [of fam name lvs] obtain v' where "(fam, name, lvs, v') \<in> set (cycle_sets ord env)"
      by auto
    then show ?thesis by (rule cycle_sets_labels)
  qed
  have held: "\<exists>fam. series_value (exporter out) fam name lvs = Some v"
    if "name \<noteq> ''up'' \<and> exposed out name lvs v" for name lvs v
  proof -
    from that ex obtain fam where cat: "name \<in> fst ` set (catalog_shape fam)"
      and last: "map_of (rev (proj fam name (cycle_sets ord env))) lvs = Some v"
      by blast
    from series_value_registry_after [OF cat, where ss = "cycle_sets ord env" and lvs = lvs] last
    have "series_value (exporter out) fam name lvs = Some v"
      by (simp add: series_value_def reg)
    then show ?thesis ..
  qed
  have indep: "\<exists>out'. Collect e' ord env = Inr out' \<and> mset (sent out') = mset (sent out) \<and>
                 (\<forall>fam name. series (exporter out') fam name = series (exporter out) fam name)"
    if ok': "exporter_ok e'" for e'
  proof -
    from Collect_reads [OF ok', of ord env] obtain out'
      where out': "Collect e' ord env = Inr out'" and ok2: "exporter_ok (exporter out')"
        and up': "up (exporter out') = up_after env"
        and sent': "sent out' = (if reports env then report (exporter out') else []) @ [up_metric (exporter out')]"
        and reg': "\<forall>fam name. series (exporter out') fam name = registry_after (cycle_sets ord env) fam name"
      by (elim exE conjE)
    have same: "\<forall>fam name. series (exporter out') fam name = series (exporter out) fam name"
      by (simp add: reg reg')
    have "mset (report (exporter out')) = mset (report (exporter out))"
      by (rule mset_report [OF ok ok2]) (simp add: same)
    then have "mset (sent out') = mset (sent out)"
      by (simp add: sent sent' up_metric_def up up')
    with out' same show ?thesis by blast
  qed
  from exact have c1: "\<forall>fam name lvs.
              (series_value (exporter out) fam name lvs \<noteq> None) =
                (\<exists>v. (fam, name, lvs, v) \<in> set (cycle_sets ord env))"
    by blast
  from docs have c2: "(\<forall>allStats. nodeStats env = Unmarshalled allStats \<longrightarrow> order_ok allStats ord) \<longrightarrow>
              (\<forall>fam name lvs.
                 (series_value (exporter out) fam name lvs \<noteq> None) =
                   ((fam, name, lvs) \<in> observed env))"
    by (rule impI)
  from one have c3: "\<forall>fam name cs. series (exporter out) fam name = Some cs \<longrightarrow> distinct (map fst cs)"
    by blast
  from fresh have c4: "\<forall>fam name lvs v.
              series_value (exporter out) fam name lvs = Some v \<longrightarrow>
                (\<exists>allStats. nodeStats env = Unmarshalled allStats \<and>
                   ((\<exists>n stats. n \<in> set (nodeOrder ord) \<and> Nodes allStats n = Some stats \<and>
                       take 2 lvs = [NodeStatsResponse.ClusterName allStats, Host stats]) \<or>
                    (\<exists>clusterStat. clusterHealth env = Unmarshalled clusterStat \<and>
                       lvs = [ClusterName clusterStat, ''unknown''])))"
    by (intro allI impI)
  from held have c5: "\<forall>name lvs v.
              name \<noteq> ''up'' \<and> exposed out name lvs v \<longrightarrow>
                (\<exists>fam. series_value (exporter out) fam name lvs = Some v)"
    by (intro allI impI)
  from indep have c6: "\<forall>e'. exporter_ok e' \<longrightarrow>
              (\<exists>out'. Collect e' ord env = Inr out' \<and> mset (sent out') = mset (sent out) \<and>
                 (\<forall>fam name. series (exporter out') fam name = series (exporter out) fam name))"
    by (intro allI impI)
  show ?thesis
    by (rule exI [of _ out]) (intro conjI out c1 c2 c3 c4 c5 c6)
qed

theorem cycle_leaves_no_stale_series_witness:
  "exporter_ok stale_exporter \<and>
   series_value stale_exporter Gauges ''indices_docs'' [''es'', ''10.0.0.9''] \<noteq> None \<and>
   exporter_ok example_exporter \<and>
   nodeStats example_upstream = Unmarshalled example_stats \<and>
   order_ok example_stats example_order \<and>
   (Gauges, ''indices_docs'', [''es'', ''10.0.0.9'']) \<notin> observed example_upstream \<and>
   (Gauges, ''indices_docs'', [''es'', ''10.0.0.1'']) \<in> observed example_upstream \<and>
   (Gauges, ''process_max_files_count'', [''es'', ''10.0.0.1'']) \<notin> observed example_upstream \<and>
   (\<exists>out. Collect stale_exporter example_order example_upstream = Inr out \<and>
      series_value (exporter out) Gauges ''indices_docs'' [''es'', ''10.0.0.9''] = None \<and>
      series_value (exporter out) Gauges ''indices_docs'' [''es'', ''10.0.0.1''] \<noteq> None \<and>
      series_value (exporter out) Gauges ''process_max_files_count'' [''es'', ''10.0.0.1''] = None \<and>
      (\<exists>out'. Collect example_exporter example_order example_upstream = Inr out' \<and>
         mset (sent out') = mset (sent out)))"
proof -
  let ?stale_env = "\<lparr>nodeStats = Unmarshalled stale_stats, clusterHealth = Unmarshalled example_health\<rparr>"
  let ?stale_ord = "example_order\<lparr>nodeOrder := [''n9'']\<rparr>"
  from cycle_leaves_no_stale_series [OF example_exporter_ok, of ?stale_ord ?stale_env]
  obtain out0 where out0: "Collect example_exporter ?stale_ord ?stale_env = Inr out0"
    and docs0: "(\<forall>allStats. nodeStats ?stale_env = Unmarshalled allStats \<longrightarrow> order_ok allStats ?stale_ord) \<longrightarrow>
              (\<forall>fam name lvs.
                 (series_value (exporter out0) fam name lvs \<noteq> None) =
                   ((fam, name, lvs) \<in> observed ?stale_env))"
    by (elim exE conjE)
  have stale: "stale_exporter = exporter out0"
    by (rule stale_exporter_cycle [OF out0])
  from docs0 [rule_format, OF stale_upstream_order [rule_format]] stale_observed_docs
  have before: "series_value stale_exporter Gauges ''indices_docs'' [''es'', ''10.0.0.9''] \<noteq> None"
    unfolding stale by blast
  from cycle_leaves_no_stale_series [OF stale_exporter_ok, of example_order example_upstream]
  obtain out where out: "Collect stale_exporter example_order example_upstream = Inr out"
    and docs: "(\<forall>allStats. nodeStats example_upstream = Unmarshalled allStats \<longrightarrow>
                  order_ok allStats example_order) \<longrightarrow>
              (\<forall>fam name lvs.
                 (series_value (exporter out) fam name lvs \<noteq> None) =
                   ((fam, name, lvs) \<in> observed example_upstream))"
    and indep: "\<forall>e'. exporter_ok e' \<longrightarrow>
              (\<exists>out'. Collect e' example_order example_upstream = Inr out' \<and>
                 mset (sent out') = mset (sent out) \<and>
                 (\<forall>fam name. series (exporter out') fam name = series (exporter out) fam name))"
    by (elim exE conjE)
  note held = docs [rule_format, OF example_upstream_order [rule_format]]
  from held [of Gauges "''indices_docs''" "[''es'', ''10.0.0.9'']"] example_observed_docs(2)
  have gone: "series_value (exporter out) Gauges ''indices_docs'' [''es'', ''10.0.0.9''] = None"
    by blast
  from held [of Gauges "''indices_docs''" "[''es'', ''10.0.0.1'']"] example_observed_docs(1)
  have present: "series_value (exporter out) Gauges ''indices_docs'' [''es'', ''10.0.0.1''] \<noteq> None"
    by blast
  from held [of Gauges "''process_max_files_count''" "[''es'', ''10.0.0.1'']"] example_observed_docs(3)
  have never: "series_value (exporter out) Gauges ''process_max_files_count'' [''es'', ''10.0.0.1''] = None"
    by blast
  from indep [rule_format, OF example_exporter_ok]
  obtain out' where out': "Collect example_exporter example_order example_upstream = Inr out'"
    and same: "mset (sent out') = mset (sent out)"
    by (elim exE conjE)
  have "\<exists>out. Collect stale_exporter example_order example_upstream = Inr out \<and>
      series_value (exporter out) Gauges ''indices_docs'' [''es'', ''10.0.0.9''] = None \<and>
      series_value (exporter out) Gauges ''indices_docs'' [''es'', ''10.0.0.1''] \<noteq> None \<and>
      series_value (exporter out) Gauges ''process_max_files_count'' [''es'', ''10.0.0.1''] = None \<and>
      (\<exists>out'. Collect example_exporter example_order example_upstream = Inr out' \<and>
         mset (sent out') = mset (sent out))"
    by (rule exI [of _ out]) (intro conjI out gone present never exI [of _ out'] out' same)
  moreover have "nodeStats example_upstream = Unmarshalled example_stats"
    by (simp add: example_upstream_def)
  ultimately show ?thesis
    using before stale_exporter_ok example_exporter_ok example_order_ok example_observed_docs
    by (intro conjI)
qed

end
